theory Spec2Isabelle
  imports Complex_Main "HOL-Library.Monad_Syntax"
begin

section \<open>Conventions of the embedding\<close>

text \<open>
  The development embeds \<^verbatim>\<open>src/python/clustering_libs.py\<close>.

  \<^item> Python and numpy floats are modelled as \<^typ>\<open>real\<close>; rounding is not modelled.
  \<^item> Python integers and numpy integer arrays are \<^typ>\<open>int\<close> and lists of \<^typ>\<open>int\<close>;
    a two-dimensional array is a list of rows.
  \<^item> A raised exception is the value \<^term>\<open>None\<close> of an option type; a normal return
    is \<^term>\<open>Some\<close>.
  \<^item> \<^verbatim>\<open>curve_fit\<close> (scipy) and the logging calls are outside the sources; the fit is a
    parameter of the functions that call it.
\<close>

section \<open>Signal constants\<close>

definition CORRECT :: int where "CORRECT = 5"
definition POTENTIAL_CORRECT :: int where "POTENTIAL_CORRECT = 4"
definition POTENTIAL_MISTAKE :: int where "POTENTIAL_MISTAKE = 3"
definition DEGENERATE :: int where "DEGENERATE = 2"
definition MISTAKE :: int where "MISTAKE = 1"
definition NOT_SOLVED :: int where "NOT_SOLVED = 0"
definition N_NEIGS :: nat where "N_NEIGS = 4"

section \<open>evaluate_result\<close>

text \<open>
  \<^verbatim>\<open>np.mean\<close> of an empty list is \<^verbatim>\<open>nan\<close>, for which every comparison is false; the
  model gives \<^term>\<open>None\<close> for it.
\<close>

definition np_mean :: "real list \<Rightarrow> real option" where
  "np_mean vs = (if vs = [] then None else Some (sum_list vs / real (length vs)))"

definition evaluate_result :: "real list \<Rightarrow> int" where
  "evaluate_result vs =
     (let TOL = 0.9; TOL_DEG = 0.8; TOL_MIN = 0.2 in
      case np_mean vs of
        None \<Rightarrow> MISTAKE
      | Some v \<Rightarrow>
          if v > TOL then CORRECT
          else if v > TOL_DEG then POTENTIAL_CORRECT
          else if v > TOL_MIN \<and> v < TOL_DEG then POTENTIAL_MISTAKE
          else MISTAKE)"

section \<open>numpy indexing\<close>

text \<open>
  \<^verbatim>\<open>a[i]\<close> on a Python list or a numpy array: a negative index counts from the end, an
  index out of range raises \<^verbatim>\<open>IndexError\<close>.
\<close>

definition np_get :: "'a list \<Rightarrow> int \<Rightarrow> 'a option" where
  "np_get xs i =
     (let n = int (length xs) in
      if 0 \<le> i \<and> i < n then Some (xs ! nat i)
      else if - n \<le> i \<and> i < 0 then Some (xs ! nat (i + n))
      else None)"

definition np_set :: "'a list \<Rightarrow> int \<Rightarrow> 'a \<Rightarrow> 'a list option" where
  "np_set xs i v =
     (let n = int (length xs) in
      if 0 \<le> i \<and> i < n then Some (xs[nat i := v])
      else if - n \<le> i \<and> i < 0 then Some (xs[nat (i + n) := v])
      else None)"

text \<open>The position an index stands for in an array of length \<open>n\<close>.\<close>

definition np_pos :: "nat \<Rightarrow> int \<Rightarrow> nat option" where
  "np_pos n i =
     (if 0 \<le> i \<and> i < int n then Some (nat i)
      else if - int n \<le> i \<and> i < 0 then Some (nat (i + int n))
      else None)"

definition np_get2 :: "'a list list \<Rightarrow> int \<Rightarrow> int \<Rightarrow> 'a option" where
  "np_get2 A i j = do { row \<leftarrow> np_get A i; np_get row j }"

definition np_set2 :: "'a list list \<Rightarrow> int \<Rightarrow> int \<Rightarrow> 'a \<Rightarrow> 'a list list option" where
  "np_set2 A i j v = do { row \<leftarrow> np_get A i; row' \<leftarrow> np_set row j v; np_set A i row' }"

definition np_get4 :: "'a list list list list \<Rightarrow> int \<Rightarrow> int \<Rightarrow> int \<Rightarrow> int \<Rightarrow> 'a option" where
  "np_get4 C a b c d = do { x \<leftarrow> np_get C a; y \<leftarrow> np_get x b; z \<leftarrow> np_get y c; np_get z d }"

text \<open>
  An elementwise operation on two one-dimensional arrays: equal lengths, or one of them
  of length 1 (broadcast); any other pair of shapes raises \<^verbatim>\<open>ValueError\<close>.
\<close>

definition np_broadcast2 :: "('a \<Rightarrow> 'b \<Rightarrow> 'c) \<Rightarrow> 'a list \<Rightarrow> 'b list \<Rightarrow> 'c list option" where
  "np_broadcast2 f xs ys =
     (if length xs = length ys then Some (map (\<lambda>(x, y). f x y) (zip xs ys))
      else if length xs = 1 then Some (map (f (hd xs)) ys)
      else if length ys = 1 then Some (map (\<lambda>x. f x (hd ys)) xs)
      else None)"

text \<open>\<^verbatim>\<open>a[mask]\<close> with a boolean mask: the lengths must agree (\<^verbatim>\<open>IndexError\<close> otherwise).\<close>

definition np_mask :: "'a list \<Rightarrow> bool list \<Rightarrow> 'a list option" where
  "np_mask xs sel =
     (if length sel = length xs then Some (map fst (filter snd (zip xs sel))) else None)"

text \<open>
  \<^verbatim>\<open>np.argsort\<close> with the default kind. numpy sorts arrays of at most 16 elements by
  insertion, which is stable; the model is the stable order for every length.
\<close>

definition np_argsort :: "('a::linorder) list \<Rightarrow> nat list" where
  "np_argsort xs = map snd (sort_key fst (zip xs [0..<length xs]))"

text \<open>\<^verbatim>\<open>np.unique\<close>: the distinct values in increasing order.\<close>

definition np_unique :: "('a::linorder) list \<Rightarrow> 'a list" where
  "np_unique xs = sort (remdups xs)"

text \<open>
  \<^verbatim>\<open>%\<close> and \<^verbatim>\<open>//\<close> on numpy integers: floor division as in Python, but a zero divisor
  gives 0 (with a warning) instead of raising.
\<close>

definition np_mod :: "int \<Rightarrow> int \<Rightarrow> int" where
  "np_mod a b = (if b = 0 then 0 else a mod b)"

definition np_div :: "int \<Rightarrow> int \<Rightarrow> int" where
  "np_div a b = (if b = 0 then 0 else a div b)"

text \<open>\<^verbatim>\<open>enumerate\<close>.\<close>

definition enumerate_int :: "'a list \<Rightarrow> (int \<times> 'a) list" where
  "enumerate_int xs = zip (map int [0..<length xs]) xs"

section \<open>The objects\<close>

text \<open>
  \<^verbatim>\<open>networkx.Graph\<close>: the nodes in insertion order and the edges as they were added. The
  graph is undirected: an edge added as \<open>(u, v)\<close> is also the edge \<open>(v, u)\<close>.
\<close>

record graph =
  g_nodes :: "int list"
  g_edges :: "(int \<times> int) list"

definition has_edge :: "graph \<Rightarrow> int \<Rightarrow> int \<Rightarrow> bool" where
  "has_edge G u v = ((u, v) \<in> set (g_edges G) \<or> (v, u) \<in> set (g_edges G))"

text \<open>
  \<^verbatim>\<open>add_edges_from\<close> also adds the end points that are not yet nodes, each where it occurs
  first.
\<close>

definition add_edges_from :: "graph \<Rightarrow> (int \<times> int) list \<Rightarrow> graph" where
  "add_edges_from G es =
     \<lparr>g_nodes = rev (remdups (rev (g_nodes G @ concat (map (\<lambda>(u, v). [u, v]) es)))),
      g_edges = g_edges G @ es\<rparr>"

text \<open>
  \<^verbatim>\<open>COMPONENT\<close>. \<open>nodes\<close> is \<^verbatim>\<open>np.array(self.GRAPH.nodes)\<close>; \<^verbatim>\<open>self.N\<close> is assigned
  \<^verbatim>\<open>number_of_nodes()\<close> wherever \<open>nodes\<close> is assigned (lines 1063 and 1069, 1104 and
  1105), so it is the length of \<open>nodes\<close>. \<open>cid\<close> is \<^verbatim>\<open>__id__\<close>, the first node at
  construction (a string in the source, the number here); \<open>scores\<close> is the dictionary
  of cached scores, keyed by the \<^verbatim>\<open>__id__\<close> of a cluster; \<open>k_edges\<close> is the boundary
  that \<^verbatim>\<open>calc_boundary\<close> stores.
\<close>

record component =
  nodes :: "int list"
  cid :: int
  was_modified :: bool
  scores :: "int \<rightharpoonup> real"
  k_edges :: "int list"

definition N :: "component \<Rightarrow> nat" where
  "N c = length (nodes c)"

text \<open>
  The constructor, lines 1061-1073, for a component with the nodes \<open>ns\<close>. \<^verbatim>\<open>k_edges\<close> does
  not exist before \<^verbatim>\<open>calc_boundary\<close>; it is empty here.
\<close>

definition comp :: "int list \<Rightarrow> component" where
  "comp ns = \<lparr>nodes = ns, cid = hd ns, was_modified = False, scores = Map.empty, k_edges = []\<rparr>"

text \<open>
  \<^verbatim>\<open>MATERIAL\<close>. \<open>nbnd\<close> is \<^verbatim>\<open>self.nbnd\<close> after \<^verbatim>\<open>make_vectors\<close>, the number of bands in
  the window; \<open>total_bands\<close> is the number of bands of the input.
  \<^verbatim>\<open>best_signal_final\<close> does not exist before the first snapshot of \<^verbatim>\<open>solve\<close> and
  \<^verbatim>\<open>degenerate_best\<close> starts as Python's \<^verbatim>\<open>None\<close>: both are options. \<open>degenerados\<close> are
  the pairs of degenerate nodes found by \<^verbatim>\<open>make_vectors\<close>.
\<close>

record material =
  nkx :: nat
  nky :: nat
  nks :: nat
  nbnd :: nat
  total_bands :: nat
  min_band :: int
  max_band :: int
  eigenvalues :: "real list list"
  connections :: "real list list list list"
  neighbors :: "int list list"
  degenerados :: "(int \<times> int) list"
  GRAPH :: graph
  solved :: "component list"
  clusters :: "component list"
  bands_final :: "int list list"
  bands_final_prev :: "int list list"
  best_bands_final :: "int list list"
  final_score :: "real list"
  best_score :: "real list"
  signal_final :: "int list list"
  best_signal_final :: "int list list option"
  degenerate_final :: "int list list option"
  degenerate_best :: "int list list option"
  correct_signalfinal :: "int list list"
  correct_signalfinal_prev :: "int list list"

section \<open>make_connections: the edges\<close>

text \<open>
  Lines 469-506 of \<^verbatim>\<open>make_connections\<close>. The repair around degenerate pairs (lines
  508-568), which starts from the graph built here, is not part of this model.

  \<^verbatim>\<open>connection_component\<close> runs on slices of the node range in \<open>n_process\<close> child
  processes and the master concatenates the lists; the model is the run on the whole
  range, which yields the same edges in the order of one process.
\<close>

text \<open>
  The test of one candidate edge, lines 490-499: \<^verbatim>\<open>i_neig\<close> are all directions in which
  \<open>k2\<close> is the neighbour of \<open>k1\<close>, and \<^verbatim>\<open>connection\<close> is an array with one entry per such
  direction. Its truth value in \<^verbatim>\<open>if connection > tol\<close> exists only for exactly one
  entry (\<^verbatim>\<open>ValueError\<close> for several; for none, numpy 2.2 raises as well).
\<close>

definition edge_test :: "material \<Rightarrow> real \<Rightarrow> int \<Rightarrow> int \<Rightarrow> int \<Rightarrow> bool option" where
  "edge_test m tol k1 bn1 j' =
     do {
       let k2 = j' mod int (nks m);
       let bn2 = j' div int (nks m) + min_band m;
       row \<leftarrow> np_get (neighbors m) k1;
       let i_neig = filter (\<lambda>i. row ! i = k2) [0..<length row];
       connection \<leftarrow> those (map (\<lambda>i. np_get4 (connections m) k1 (int i) bn1 bn2) i_neig);
       (case connection of [c] \<Rightarrow> Some (c > tol) | _ \<Rightarrow> None)
     }"

text \<open>The body of the loop over the nodes, lines 484-500: the edges that start at node \<open>i_\<close> of the source, here \<open>i'\<close>.\<close>

definition node_edges :: "material \<Rightarrow> real \<Rightarrow> int list \<Rightarrow> int \<Rightarrow> (int \<times> int) list option" where
  "node_edges m tol bands i' =
     do {
       let bn1 = i' div int (nks m) + min_band m;
       let k1 = i' mod int (nks m);
       row \<leftarrow> np_get (neighbors m) k1;
       let neighs = concat (replicate (nbnd m) row);
       ks \<leftarrow> np_broadcast2 (\<lambda>n b. n + b * int (nks m)) neighs bands;
       ks \<leftarrow> np_mask ks (map (\<lambda>n. n \<noteq> - 1) neighs);
       found \<leftarrow> those (map (edge_test m tol k1 bn1) ks);
       Some (map (\<lambda>(j', c). (i', j')) (filter snd (zip ks found)))
     }"

definition connection_component :: "material \<Rightarrow> real \<Rightarrow> int list \<Rightarrow> (int \<times> int) list option" where
  "connection_component m tol vectors =
     do {
       first \<leftarrow> np_get (neighbors m) 0;
       let bands = concat (map (replicate (length first)) [min_band m..max_band m]);
       edges \<leftarrow> those (map (node_edges m tol bands) vectors);
       Some (concat edges)
     }"

text \<open>\<^verbatim>\<open>len(self.vectors)\<close> is \<^verbatim>\<open>n_vectors\<close> of \<^verbatim>\<open>make_vectors\<close>, the window width times \<open>nks\<close>.\<close>

definition n_vectors :: "material \<Rightarrow> nat" where
  "n_vectors m = nbnd m * nks m"

definition make_connections_edges :: "material \<Rightarrow> real \<Rightarrow> material option" where
  "make_connections_edges m tol =
     do {
       edges \<leftarrow> connection_component m tol (map int [0..<n_vectors m]);
       Some (m\<lparr>GRAPH := add_edges_from (GRAPH m) edges\<rparr>)
     }"

text \<open>
  The relation the specification states for an edge from \<open>n1\<close> to \<open>n2\<close>: both are nodes,
  the k-point of \<open>n2\<close> is a neighbour of the k-point of \<open>n1\<close> in some direction \<open>i\<close>, and
  the overlap of the two bands in that direction exceeds \<open>tol\<close>.
\<close>

definition overlap_link :: "material \<Rightarrow> real \<Rightarrow> int \<Rightarrow> int \<Rightarrow> bool" where
  "overlap_link m tol n1 n2 =
     (0 \<le> n1 \<and> n1 < int (n_vectors m) \<and> 0 \<le> n2 \<and> n2 < int (n_vectors m)
      \<and> list_ex (\<lambda>i. np_get2 (neighbors m) (n1 mod int (nks m)) (int i) = Some (n2 mod int (nks m))
                    \<and> (case np_get4 (connections m) (n1 mod int (nks m)) (int i)
                               (n1 div int (nks m) + min_band m) (n2 div int (nks m) + min_band m) of
                          None \<Rightarrow> False
                        | Some c \<Rightarrow> c > tol))
           [0..<4])"

text \<open>
  Two k-points side by side, one band, overlap 0.9 from k-point 0 to k-point 1 and 0.96
  back.
\<close>

definition two_points :: material where
  "two_points =
     \<lparr>nkx = 2, nky = 1, nks = 2, nbnd = 1, total_bands = 1, min_band = 0, max_band = 0,
      eigenvalues = [[0], [1]],
      connections = [[[[0]], [[0.9]], [[0]], [[0]]], [[[0]], [[0]], [[0]], [[0.96]]]],
      neighbors = [[- 1, 1, - 1, - 1], [- 1, - 1, - 1, 0]], degenerados = [],
      GRAPH = \<lparr>g_nodes = [0, 1], g_edges = []\<rparr>, solved = [], clusters = [],
      bands_final = [[- 1], [- 1]], bands_final_prev = [],
      best_bands_final = [], final_score = [], best_score = [], signal_final = [],
      best_signal_final = None, degenerate_final = None, degenerate_best = None,
      correct_signalfinal = [], correct_signalfinal_prev = []\<rparr>"

text \<open>
  The neighbour table of a grid: one row of four entries per k-point, each \<open>-1\<close> or a
  k-point.
\<close>

definition neighbors_ok :: "material \<Rightarrow> bool" where
  "neighbors_ok m =
     (0 < nks m \<and> length (neighbors m) = nks m
      \<and> list_all (\<lambda>row. length row = 4
                      \<and> list_all (\<lambda>x. x = - 1 \<or> (0 \<le> x \<and> x < int (nks m))) row)
           (neighbors m))"

section \<open>evaluate_point\<close>

text \<open>
  \<^verbatim>\<open>difference_energy\<close> (lines 131-146); \<open>Erow\<close> is \<^verbatim>\<open>energies[k]\<close>, the energies of all
  bands at the k-point. \<^verbatim>\<open>np.min\<close> of an empty array raises.
\<close>

definition difference_energy :: "real list \<Rightarrow> real \<Rightarrow> real \<Rightarrow> real option" where
  "difference_energy Erow Ek Enew =
     (if Erow = [] then None
      else
        let min_energy = Min (set (map (\<lambda>e. \<bar>Enew - e\<bar>) Erow));
            delta_energy = \<bar>Enew - Ek\<bar>
        in Some (if delta_energy \<noteq> 0 then min_energy / delta_energy else 1))"

definition directions :: "(int \<times> int) list" where
  "directions = [(1, 0), (0, 1), (- 1, 0), (0, - 1)]"

definition shape0 :: "'a list list \<Rightarrow> int" where
  "shape0 M = int (length M)"

definition shape1 :: "'a list list \<Rightarrow> int" where
  "shape1 M = (case M of [] \<Rightarrow> 0 | row # _ \<Rightarrow> int (length row))"

text \<open>
  Lines 157-168: the \<open>N = 4\<close> grid coordinates next to \<open>(ik, jk)\<close> in one direction, cut
  to the grid along the axis that varies; the result is the pair of index arrays
  \<open>(i, j)\<close> and \<open>flag\<close>.
\<close>

definition direction_points ::
  "int list list \<Rightarrow> int \<Rightarrow> int \<Rightarrow> int \<times> int \<Rightarrow> int list \<times> int list \<times> bool" where
  "direction_points k_matrix ik jk direction =
     (let n = [1, 2, 3, 4];
          i = map (\<lambda>t. t * fst direction + ik) n;
          j = map (\<lambda>t. t * snd direction + jk) n;
          flag = (length (remdups i) > 1)
      in if flag then
           let i = filter (\<lambda>x. x \<ge> 0) i;
               i = filter (\<lambda>x. x < shape0 k_matrix) i;
               j = replicate (length i) (hd j)
           in (i, j, flag)
         else
           let j = filter (\<lambda>x. x \<ge> 0) j;
               j = filter (\<lambda>x. x < shape1 k_matrix) j;
               i = replicate (length j) (hd i)
           in (i, j, flag))"

text \<open>
  The body of the loop over the directions, lines 155-188: the value appended to
  \<^verbatim>\<open>energy_vals\<close>. \<open>fit X Es new_x\<close> stands for \<^verbatim>\<open>curve_fit\<close> of the second order
  polynomial through the points \<open>(X, Es)\<close>, evaluated at \<open>new_x\<close>.
\<close>

definition energy_val ::
  "(int list \<Rightarrow> real list \<Rightarrow> int \<Rightarrow> real option) \<Rightarrow> int \<Rightarrow> int list list \<Rightarrow> int list list
     \<Rightarrow> real list list \<Rightarrow> real list \<Rightarrow> int \<Rightarrow> int \<Rightarrow> real \<Rightarrow> int \<times> int \<Rightarrow> real option" where
  "energy_val fit bn k_matrix bands energies Erow ik jk Ek direction =
     (case direction_points k_matrix ik jk direction of (i, j, flag) \<Rightarrow>
        do {
          ks \<leftarrow> (if length i > 0 then those (map (\<lambda>(a, b). np_get2 k_matrix a b) (zip i j))
                 else Some []);
          if length ks = 0 then Some 1
          else if length ks \<le> 3 then
            do {
              b0 \<leftarrow> np_get2 bands (hd ks) bn;
              Eneig \<leftarrow> np_get2 energies (hd ks) b0;
              difference_energy Erow Ek Eneig
            }
          else
            do {
              k_bands \<leftarrow> those (map (\<lambda>kp. np_get2 bands kp bn) ks);
              Es \<leftarrow> those (map (\<lambda>(kp, b). np_get2 energies kp b) (zip ks k_bands));
              let X = (if flag then i else j);
              let new_x = (if flag then ik else jk);
              Enew \<leftarrow> fit X Es new_x;
              difference_energy Erow Ek Enew
            }
        })"

text \<open>
  The signals here are the local constants of the function: \<^verbatim>\<open>CORRECT = 4\<close>,
  \<^verbatim>\<open>OTHER = 3\<close>, \<^verbatim>\<open>MISTAKE = 1\<close>.
\<close>

definition evaluate_point ::
  "(int list \<Rightarrow> real list \<Rightarrow> int \<Rightarrow> real option) \<Rightarrow> int \<Rightarrow> int \<Rightarrow> (int \<times> int) list
     \<Rightarrow> int list list \<Rightarrow> int list list \<Rightarrow> int list list \<Rightarrow> real list list
     \<Rightarrow> (int \<times> int list) option" where
  "evaluate_point fit k bn k_index k_matrix signal bands energies =
     do {
       let TOL = 0.9;
       mach_bn \<leftarrow> np_get2 bands k bn;
       sig \<leftarrow> np_get2 signal k bn;
       (ik, jk) \<leftarrow> np_get k_index k;
       Ek \<leftarrow> np_get2 energies k mach_bn;
       Erow \<leftarrow> np_get energies k;
       energy_vals \<leftarrow>
         those (map (energy_val fit bn k_matrix bands energies Erow ik jk Ek) directions);
       let scores = map (\<lambda>v. if v > TOL then 1 else 0) energy_vals;
       let score = sum_list scores;
       if score = int N_NEIGS then Some (4, scores)
       else if score = 0 then Some (1, scores)
       else Some (3, scores)
     }"

text \<open>
  \<^verbatim>\<open>make_kpointsIndex\<close> (lines 319-323): \<open>matrix[i][j] = j * nkx + i\<close> and
  \<open>kpoints_index[k] = (k mod nkx, k div nkx)\<close>.
\<close>

definition make_matrix :: "nat \<Rightarrow> nat \<Rightarrow> int list list" where
  "make_matrix nx ny = map (\<lambda>i. map (\<lambda>j. int j * int nx + int i) [0..<ny]) [0..<nx]"

definition make_kpoints_index :: "nat \<Rightarrow> nat \<Rightarrow> (int \<times> int) list" where
  "make_kpoints_index nx n = map (\<lambda>c. (int c mod int nx, int c div int nx)) [0..<n]"

text \<open>A grid cell: both coordinates inside the array.\<close>

definition in_grid :: "'a list list \<Rightarrow> int \<times> int \<Rightarrow> bool" where
  "in_grid M p = (0 \<le> fst p \<and> fst p < shape0 M \<and> 0 \<le> snd p \<and> snd p < shape1 M)"

text \<open>A fit that is never called on a grid with fewer than five points per line.\<close>

definition no_fit :: "int list \<Rightarrow> real list \<Rightarrow> int \<Rightarrow> real option" where
  "no_fit X Es new_x = None"

section \<open>Double precision\<close>

text \<open>
  The tolerance of \<^verbatim>\<open>solve\<close> is a Python float, an IEEE 754 double, and \<^verbatim>\<open>TOL -= step\<close>
  rounds. A double is modelled by its value, a real number, and the subtraction by the
  exact difference rounded to the nearest double, ties to the even mantissa. The model
  covers the finite doubles: a result of magnitude \<^verbatim>\<open>2**1024\<close> or more, which Python gives as
  \<^verbatim>\<open>inf\<close>, is outside it.
\<close>

text \<open>
  The binary exponent of a positive number: \<open>exp_up\<close> halves a number from 2 on until it
  is below 2, \<open>exp_down\<close> doubles a number below 1 until it reaches 1. The 1100 steps
  allowed in \<open>f64_exponent\<close> cover every double.
\<close>

fun exp_up :: "nat \<Rightarrow> real \<Rightarrow> int" where
  "exp_up 0 y = 0"
| "exp_up (Suc n) y = (if y \<ge> 2 then exp_up n (y / 2) + 1 else 0)"

fun exp_down :: "nat \<Rightarrow> real \<Rightarrow> int" where
  "exp_down 0 y = 0"
| "exp_down (Suc n) y = (if y < 1 then exp_down n (2 * y) - 1 else 0)"

definition f64_exponent :: "real \<Rightarrow> int" where
  "f64_exponent x = (if \<bar>x\<bar> \<ge> 1 then exp_up 1100 \<bar>x\<bar> else exp_down 1100 \<bar>x\<bar>)"

text \<open>\<open>pow2 e\<close> is \<^verbatim>\<open>2**e\<close> for an integer \<open>e\<close>.\<close>

definition pow2 :: "int \<Rightarrow> real" where
  "pow2 e = (if e \<ge> 0 then 2 ^ nat e else 1 / 2 ^ nat (- e))"

text \<open>The nearest integer, the even one of the two when \<open>q\<close> lies half way.\<close>

definition round_half_even :: "real \<Rightarrow> int" where
  "round_half_even q =
     (let n = \<lfloor>q\<rfloor>; f = q - of_int n
      in if f < 1 / 2 then n else if f > 1 / 2 then n + 1 else if even n then n else n + 1)"

text \<open>
  The nearest double: 53 bits of mantissa, so the spacing of the doubles around \<open>x\<close> is
  \<^verbatim>\<open>2**(e-52)\<close> with \<open>e\<close> the exponent of \<open>x\<close>, and \<^verbatim>\<open>2**(-1074)\<close> for the subnormal numbers below
  \<^verbatim>\<open>2**(-1022)\<close>.
\<close>

definition f64_round :: "real \<Rightarrow> real" where
  "f64_round x =
     (if x = 0 then 0
      else let u = pow2 (max (f64_exponent x) (- 1022) - 52)
           in sgn x * of_int (round_half_even (\<bar>x\<bar> / u)) * u)"

text \<open>\<^verbatim>\<open>a - b\<close> on two doubles.\<close>

definition f64_sub :: "real \<Rightarrow> real \<Rightarrow> real" where
  "f64_sub a b = f64_round (a - b)"

text \<open>The default of \<^verbatim>\<open>step\<close>, the double that Python reads from \<^verbatim>\<open>0.1\<close>.\<close>

definition step_default :: real where
  "step_default = 3602879701896397 / 2 ^ 55"

section \<open>The outer solver loop\<close>

text \<open>
  What one run of \<^verbatim>\<open>get_components; obtain_output; correct_signal\<close> (lines 1007-1015),
  or of \<^verbatim>\<open>correct_signal\<close> alone (line 1043), writes; both are parameters of the loop.
  None of them assigns \<^verbatim>\<open>best_*\<close>, \<^verbatim>\<open>bands_final_prev\<close> or the local
  \<^verbatim>\<open>max_solved\<close>. (\<^verbatim>\<open>self.components\<close> and \<^verbatim>\<open>self.final_report\<close>, which nothing
  modelled here reads, are left out.)
\<close>

record stage_out =
  o_bands_final :: "int list list"
  o_final_score :: "real list"
  o_signal_final :: "int list list"
  o_degenerate_final :: "int list list option"
  o_correct_signalfinal :: "int list list"
  o_correct_signalfinal_prev :: "int list list"
  o_GRAPH :: graph
  o_solved :: "component list"
  o_clusters :: "component list"

definition store_out :: "material \<Rightarrow> stage_out \<Rightarrow> material" where
  "store_out m out =
     m\<lparr>bands_final := o_bands_final out,
       final_score := o_final_score out,
       signal_final := o_signal_final out,
       degenerate_final := o_degenerate_final out,
       correct_signalfinal := o_correct_signalfinal out,
       correct_signalfinal_prev := o_correct_signalfinal_prev out,
       GRAPH := o_GRAPH out,
       solved := o_solved out,
       clusters := o_clusters out\<rparr>"

text \<open>\<^verbatim>\<open>np.sum(np.abs(A - B))\<close> for two integer arrays of the same shape.\<close>

definition abs_diff_sum :: "int list list \<Rightarrow> int list list \<Rightarrow> int" where
  "abs_diff_sum A B =
     sum_list (map (\<lambda>(ra, rb). sum_list (map (\<lambda>(x, y). \<bar>x - y\<bar>) (zip ra rb))) (zip A B))"

text \<open>\<^verbatim>\<open>np.sum(A[:, bn] == NOT_SOLVED)\<close>.\<close>

definition count_not_solved :: "int list list \<Rightarrow> nat \<Rightarrow> nat" where
  "count_not_solved A bn = length (filter (\<lambda>row. bn < length row \<and> row ! bn = NOT_SOLVED) A)"

text \<open>
  Lines 1023-1031: the number of leading bands whose new score is at least the best one
  and that have no more unsolved points than before; the loop breaks at the first band
  that fails. \<^verbatim>\<open>self.best_score[bn]\<close> raises when \<open>bn\<close> is out of range.
\<close>

fun count_solved :: "material \<Rightarrow> nat \<Rightarrow> real list \<Rightarrow> nat option" where
  "count_solved m bn [] = Some 0"
| "count_solved m bn (score # rest) =
     (if bn \<ge> length (best_score m) then None
      else if score \<ge> best_score m ! bn
            \<and> count_not_solved (correct_signalfinal m) bn
                \<le> count_not_solved (correct_signalfinal_prev m) bn
      then map_option Suc (count_solved m (Suc bn) rest)
      else Some 0)"

text \<open>
  One pass through the body of the \<^verbatim>\<open>while\<close> loop (lines 1005-1044) without the update
  of \<^verbatim>\<open>TOL\<close>: the new object, the new \<^verbatim>\<open>bands_final_flag\<close> and the new
  \<^verbatim>\<open>max_solved\<close>.
\<close>

definition solve_body ::
  "(real \<Rightarrow> material \<Rightarrow> stage_out option) \<Rightarrow> (material \<Rightarrow> stage_out option)
     \<Rightarrow> real \<Rightarrow> material \<Rightarrow> nat \<Rightarrow> (material \<times> bool \<times> nat) option" where
  "solve_body stages correct_signal TOL m max_solved =
     do {
       out \<leftarrow> stages TOL m;
       let m1 = store_out m out;
       let bands_final_flag = (abs_diff_sum (bands_final_prev m1) (bands_final m1) \<noteq> 0);
       let m2 = m1\<lparr>bands_final_prev := bands_final m1\<rparr>;
       solved \<leftarrow> count_solved m2 0 (final_score m2);
       if solved \<ge> max_solved then
         Some (m2\<lparr>best_bands_final := bands_final m2,
                  best_score := final_score m2,
                  best_signal_final := Some (signal_final m2),
                  degenerate_best := degenerate_final m2\<rparr>,
               bands_final_flag, solved)
       else do {
         bsf \<leftarrow> best_signal_final m2;
         let m3 = m2\<lparr>bands_final := best_bands_final m2,
                      final_score := best_score m2,
                      signal_final := bsf,
                      degenerate_final := degenerate_best m2\<rparr>;
         out' \<leftarrow> correct_signal m3;
         Some (store_out m3 out', bands_final_flag, max_solved)
       }
     }"

text \<open>
  The loop itself. It need not terminate (\<open>step \<le> 0\<close>, or a step too small to change the
  tolerance), so it is a partial function: the outer \<^term>\<open>None\<close> is divergence, the inner
  one an exception of the body. \<^verbatim>\<open>TOL\<close>, \<^verbatim>\<open>step\<close> and \<^verbatim>\<open>min_tol\<close> are doubles and
  \<^verbatim>\<open>TOL -= step\<close> is \<^const>\<open>f64_sub\<close>. The list \<open>hist\<close> is a ghost variable: one entry
  \<open>(TOL, bands_final_flag, best_score)\<close> per completed pass, the tolerance the pass ran
  with and the two values after it.
\<close>

partial_function (option) solve_loop ::
  "(real \<Rightarrow> material \<Rightarrow> stage_out option) \<Rightarrow> (material \<Rightarrow> stage_out option)
     \<Rightarrow> real \<Rightarrow> real \<Rightarrow> (material \<times> real \<times> bool \<times> nat \<times> (real \<times> bool \<times> real list) list)
     \<Rightarrow> ((real \<times> bool \<times> real list) list \<times> material option) option" where
  "solve_loop stages correct_signal step min_tol st =
     (case st of (m, TOL, bands_final_flag, max_solved, hist) \<Rightarrow>
        if bands_final_flag \<and> TOL \<ge> min_tol then
          (case solve_body stages correct_signal TOL m max_solved of
             None \<Rightarrow> Some (hist, None)
           | Some (m', flag', max_solved') \<Rightarrow>
               solve_loop stages correct_signal step min_tol
                 (m', f64_sub TOL step, flag', max_solved',
                  hist @ [(TOL, flag', best_score m')]))
        else Some (hist, Some m))"

text \<open>
  The same loop cut off after \<open>n\<close> passes, to run it on concrete inputs; it gives
  \<^term>\<open>None\<close> when the passes do not suffice.
\<close>

fun solve_loop_fuel ::
  "nat \<Rightarrow> (real \<Rightarrow> material \<Rightarrow> stage_out option) \<Rightarrow> (material \<Rightarrow> stage_out option)
     \<Rightarrow> real \<Rightarrow> real \<Rightarrow> (material \<times> real \<times> bool \<times> nat \<times> (real \<times> bool \<times> real list) list)
     \<Rightarrow> ((real \<times> bool \<times> real list) list \<times> material option) option" where
  "solve_loop_fuel 0 stages correct_signal step min_tol st = None"
| "solve_loop_fuel (Suc n) stages correct_signal step min_tol st =
     (case st of (m, TOL, bands_final_flag, max_solved, hist) \<Rightarrow>
        if bands_final_flag \<and> TOL \<ge> min_tol then
          (case solve_body stages correct_signal TOL m max_solved of
             None \<Rightarrow> Some (hist, None)
           | Some (m', flag', max_solved') \<Rightarrow>
               solve_loop_fuel n stages correct_signal step min_tol
                 (m', f64_sub TOL step, flag', max_solved',
                  hist @ [(TOL, flag', best_score m')]))
        else Some (hist, Some m))"

text \<open>Lines 990-999: the state before the first pass.\<close>

definition solve_init :: "material \<Rightarrow> material" where
  "solve_init m =
     m\<lparr>bands_final_prev := bands_final m,
       best_bands_final := bands_final m,
       best_score := replicate (total_bands m) 0,
       final_score := replicate (total_bands m) 0,
       signal_final := replicate (nks m) (replicate (total_bands m) 0),
       correct_signalfinal_prev := replicate (nks m) (replicate (total_bands m) (- 1)),
       degenerate_best := None\<rparr>"

text \<open>Lines 1046-1050: the best result is put back.\<close>

definition solve_finish :: "material \<Rightarrow> material option" where
  "solve_finish m =
     do {
       bsf \<leftarrow> best_signal_final m;
       Some (m\<lparr>bands_final := best_bands_final m,
               final_score := best_score m,
               signal_final := bsf,
               degenerate_final := degenerate_best m\<rparr>)
     }"

definition solve ::
  "(real \<Rightarrow> material \<Rightarrow> stage_out option) \<Rightarrow> (material \<Rightarrow> stage_out option)
     \<Rightarrow> real \<Rightarrow> real \<Rightarrow> material
     \<Rightarrow> ((real \<times> bool \<times> real list) list \<times> material option) option" where
  "solve stages correct_signal step min_tol m =
     map_option (\<lambda>(hist, r). (hist, Option.bind r solve_finish))
       (solve_loop stages correct_signal step min_tol (solve_init m, 0.5, True, 0, []))"

definition solve_fuel ::
  "nat \<Rightarrow> (real \<Rightarrow> material \<Rightarrow> stage_out option) \<Rightarrow> (material \<Rightarrow> stage_out option)
     \<Rightarrow> real \<Rightarrow> real \<Rightarrow> material
     \<Rightarrow> ((real \<times> bool \<times> real list) list \<times> material option) option" where
  "solve_fuel n stages correct_signal step min_tol m =
     map_option (\<lambda>(hist, r). (hist, Option.bind r solve_finish))
       (solve_loop_fuel n stages correct_signal step min_tol (solve_init m, 0.5, True, 0, []))"

subsection \<open>Ghost predicates over the history of the loop\<close>




section \<open>obtain_output\<close>

subsection \<open>COMPONENT.get_bands\<close>

text \<open>
  \<^verbatim>\<open>self.nks\<close> of a component is \<^verbatim>\<open>m_shape[0] * m_shape[1]\<close>, the size of the matrix of
  k-points, which has the shape \<open>(nkx, nky)\<close>.
\<close>

definition c_nks :: "material \<Rightarrow> int" where
  "c_nks m = int (nkx m) * int (nky m)"

definition k_points :: "material \<Rightarrow> component \<Rightarrow> int list" where
  "k_points m c = map (\<lambda>n. np_mod n (c_nks m)) (nodes c)"

definition k_bands :: "material \<Rightarrow> component \<Rightarrow> int list" where
  "k_bands m c = map (\<lambda>n. np_div n (c_nks m)) (nodes c)"

text \<open>\<^verbatim>\<open>dict(zip(...))\<close>: a later pair replaces an earlier one with the same key.\<close>

definition bands_number :: "material \<Rightarrow> component \<Rightarrow> int \<rightharpoonup> int" where
  "bands_number m c = map_of (rev (zip (k_points m c) (k_bands m c)))"

text \<open>
  \<^verbatim>\<open>self.bands\<close> after \<^verbatim>\<open>get_bands\<close>: the band offsets of the component, the most frequent
  first (\<^verbatim>\<open>bands[np.argsort(counts)[::-1]]\<close>).
\<close>

definition bands_by_count :: "material \<Rightarrow> component \<Rightarrow> int list" where
  "bands_by_count m c =
     (let kb = k_bands m c;
          bands = np_unique kb;
          counts = map (\<lambda>b. length (filter (\<lambda>x. x = b) kb)) bands
      in map (\<lambda>i. bands ! i) (rev (np_argsort counts)))"

subsection \<open>Physical band of a component\<close>

text \<open>
  Lines 719-723, for a solved component: the first band of \<^verbatim>\<open>solved.bands\<close> (plus
  \<^verbatim>\<open>min_band\<close>) that is not in \<^verbatim>\<open>solved_bands\<close>; \<^verbatim>\<open>solved.bands[0]\<close> raises when the
  list is used up.
\<close>

fun pick_solved :: "int \<Rightarrow> int list \<Rightarrow> int list \<Rightarrow> int option" where
  "pick_solved mb solved_bands [] = None"
| "pick_solved mb solved_bands (b # bands) =
     (if b + mb \<in> set solved_bands then pick_solved mb solved_bands bands else Some (b + mb))"

text \<open>
  Lines 742-749, for a cluster: the \<^verbatim>\<open>while\<close> loop also stops when the list is used up,
  and then line 749 leaves the loop over the clusters (\<^verbatim>\<open>break\<close>).
\<close>

datatype slot = Break | Slot int

fun pick_cluster :: "int \<Rightarrow> int list \<Rightarrow> int list \<Rightarrow> slot option" where
  "pick_cluster mb solved_bands [] = None"
| "pick_cluster mb solved_bands (b # bands) =
     (if b + mb \<in> set solved_bands \<and> bands \<noteq> [] then pick_cluster mb solved_bands bands
      else if b + mb \<in> set solved_bands then Some Break
      else Some (Slot (b + mb)))"

subsection \<open>Writing a column\<close>

text \<open>
  \<^verbatim>\<open>A[ks, bn] = vals\<close> with an index array \<open>ks\<close>: one assignment per pair, in order.
\<close>

fun assign_column :: "'a list list \<Rightarrow> int \<Rightarrow> (int \<times> 'a) list \<Rightarrow> 'a list list option" where
  "assign_column A bn [] = Some A"
| "assign_column A bn ((k, v) # kvs) = do { A' \<leftarrow> np_set2 A k bn v; assign_column A' bn kvs }"

subsection \<open>Signals of a component\<close>

text \<open>
  Lines 728-736 and 754-765: the overlaps of a k-point with its neighbours along the
  bands the component holds there. A neighbour outside the component raises
  \<^verbatim>\<open>KeyError\<close> for a solved component and counts as 0 for a cluster.
\<close>

definition neighbor_connections :: "material \<Rightarrow> component \<Rightarrow> bool \<Rightarrow> int \<Rightarrow> real list option" where
  "neighbor_connections m c is_cluster k =
     do {
       b1 \<leftarrow> bands_number m c k;
       let bn1 = b1 + min_band m;
       row \<leftarrow> np_get (neighbors m) k;
       found \<leftarrow> those (map (\<lambda>(i_neig, k_neig).
                  if k_neig = - 1 then Some []
                  else if is_cluster \<and> k_neig \<notin> set (k_points m c) then Some [0]
                  else do {
                    b2 \<leftarrow> bands_number m c k_neig;
                    x \<leftarrow> np_get4 (connections m) k i_neig bn1 (b2 + min_band m);
                    Some [x]
                  }) (enumerate_int row));
       Some (concat found)
     }"

fun component_signals ::
  "material \<Rightarrow> component \<Rightarrow> bool \<Rightarrow> int \<Rightarrow> int list list \<Rightarrow> int list \<Rightarrow> int list list option" where
  "component_signals m c is_cluster bn S [] = Some S"
| "component_signals m c is_cluster bn S (k # ks) =
     do {
       conns \<leftarrow> neighbor_connections m c is_cluster k;
       S' \<leftarrow> np_set2 S k bn (evaluate_result conns);
       component_signals m c is_cluster bn S' ks
     }"

text \<open>Lines 725-736 and 751-765: a component takes the physical band \<open>bn\<close>.\<close>

definition place_component :: "material \<Rightarrow> component \<Rightarrow> bool \<Rightarrow> int \<Rightarrow> material option" where
  "place_component m c is_cluster bn =
     do {
       B \<leftarrow> assign_column (bands_final m) bn
              (zip (k_points m c) (map (\<lambda>b. b + min_band m) (k_bands m c)));
       S \<leftarrow> component_signals m c is_cluster bn (signal_final m) (k_points m c);
       Some (m\<lparr>bands_final := B, signal_final := S\<rparr>)
     }"

subsection \<open>The two loops over the components\<close>

text \<open>Lines 716-736. The state is \<^verbatim>\<open>solved_bands\<close> and the object.\<close>

fun solved_loop :: "material \<Rightarrow> int list \<Rightarrow> component list \<Rightarrow> (int list \<times> material) option" where
  "solved_loop m solved_bands [] = Some (solved_bands, m)"
| "solved_loop m solved_bands (c # cs) =
     do {
       bn \<leftarrow> pick_solved (min_band m) solved_bands (bands_by_count m c);
       m' \<leftarrow> place_component m c False bn;
       solved_loop m' (solved_bands @ [bn]) cs
     }"

text \<open>
  Lines 738-765, over the clusters in the order of \<^verbatim>\<open>clusters_sort[::-1]\<close>. On
  \<^const>\<open>Break\<close> the loop ends: the clusters that follow are not visited.
\<close>

fun clusters_loop :: "material \<Rightarrow> int list \<Rightarrow> component list \<Rightarrow> (int list \<times> material) option" where
  "clusters_loop m solved_bands [] = Some (solved_bands, m)"
| "clusters_loop m solved_bands (c # cs) =
     do {
       s \<leftarrow> pick_cluster (min_band m) solved_bands (bands_by_count m c);
       case s of
         Break \<Rightarrow> Some (solved_bands, m)
       | Slot bn \<Rightarrow>
           do {
             m' \<leftarrow> place_component m c True bn;
             clusters_loop m' (solved_bands @ [bn]) cs
           }
     }"

definition clusters_sorted :: "material \<Rightarrow> component list" where
  "clusters_sorted m = map (\<lambda>i. clusters m ! i) (rev (np_argsort (map N (clusters m))))"

subsection \<open>Degenerate pairs\<close>

text \<open>
  Lines 772-775: the column of \<^verbatim>\<open>bands_final[k]\<close> that holds the band \<open>bn\<close>
  (\<^verbatim>\<open>np.argmax\<close> of the comparison, the first one), or \<open>bn\<close> itself when no column does.
\<close>

definition band_column :: "int list list \<Rightarrow> int \<Rightarrow> int \<Rightarrow> int option" where
  "band_column B k bn =
     do {
       row \<leftarrow> np_get B k;
       Some (case filter (\<lambda>i. row ! i = bn) [0..<length row] of
               [] \<Rightarrow> bn
             | i # _ \<Rightarrow> int i)
     }"

text \<open>Lines 767-778.\<close>

fun degenerados_loop :: "material \<Rightarrow> int list list \<Rightarrow> (int \<times> int) list \<Rightarrow> int list list option" where
  "degenerados_loop m S [] = Some S"
| "degenerados_loop m S ((d1, d2) # ds) =
     do {
       let k1 = np_mod d1 (int (nks m));
       let bn1 = np_div d1 (int (nks m)) + min_band m;
       let k2 = np_mod d2 (int (nks m));
       let bn2 = np_div d2 (int (nks m)) + min_band m;
       bn1 \<leftarrow> band_column (bands_final m) k1 bn1;
       bn2 \<leftarrow> band_column (bands_final m) k2 bn2;
       S1 \<leftarrow> np_set2 S k1 bn1 DEGENERATE;
       S2 \<leftarrow> np_set2 S1 k2 bn2 DEGENERATE;
       degenerados_loop m S2 ds
     }"

subsection \<open>Scores and basis rotations\<close>

text \<open>An entry of \<^verbatim>\<open>k_basis_rotation\<close>: \<open>(k, k_deg, bn, bns_deg)\<close>.\<close>

type_synonym rotation = "int \<times> int list \<times> int \<times> int list list"

definition in_window :: "real \<Rightarrow> bool" where
  "in_window x = (x \<ge> 0.5 \<and> x \<le> 0.8)"

text \<open>
  Lines 805-819, entered when some realized overlap of \<open>(k, bn)\<close> lies in \<open>[0.5, 0.8]\<close>.
  \<^verbatim>\<open>np.where\<close> lists the pairs (row, band) in row-major order. \<^verbatim>\<open>np.split\<close> at the first
  indices of the distinct values of the sorted \<^verbatim>\<open>k_deg\<close> gives one group of bands per
  distinct neighbour. With exactly one group of more than one band, line 818 indexes the
  Python list \<^verbatim>\<open>bn_unique\<close> with the array \<^verbatim>\<open>i_deg\<close>, which raises \<^verbatim>\<open>TypeError\<close>.
\<close>

definition rotation_entry :: "material \<Rightarrow> int \<Rightarrow> int \<Rightarrow> int list \<Rightarrow> int \<Rightarrow> rotation option option" where
  "rotation_entry m bn k i_neigs bn_k =
     do {
       dps_deg \<leftarrow> those (map (\<lambda>i. do { x \<leftarrow> np_get (connections m) k;
                                       y \<leftarrow> np_get x i;
                                       np_get y bn_k }) i_neigs);
       let hits = concat (map (\<lambda>(t, row). map (\<lambda>b. (t, int b))
                                (filter (\<lambda>b. in_window (row ! b)) [0..<length row]))
                           (enumerate_int dps_deg));
       let i_deg = map fst hits;
       let bn_deg = map snd hits;
       row \<leftarrow> np_get (neighbors m) k;
       k_deg \<leftarrow> (if i_neigs = [] then None
                 else those (map (\<lambda>t. np_get row (t + Min (set i_neigs))) i_deg));
       let i_sort = np_argsort k_deg;
       let k_deg = map (\<lambda>i. k_deg ! i) i_sort;
       let bn_deg = map (\<lambda>i. bn_deg ! i) i_sort;
       let k_unique = np_unique k_deg;
       let bn_unique = map (\<lambda>ku. map snd (filter (\<lambda>(kd, b). kd = ku) (zip k_deg bn_deg))) k_unique;
       let len_bn = map length bn_unique;
       if list_ex (\<lambda>l. l > 1) len_bn then
         let i_deg = filter (\<lambda>j. len_bn ! j > 1) [0..<length len_bn];
             k_deg = map (\<lambda>j. k_unique ! j) i_deg
         in if length i_deg > 1
            then Some (Some (k, k_deg, bn, map (\<lambda>j. bn_unique ! j) i_deg))
            else None
       else Some None
     }"

text \<open>
  The body of the loop over the k-points, lines 788-820: the rotation found at \<open>(k, bn)\<close>,
  if any, and what the point adds to \<^verbatim>\<open>score\<close> (nothing where the loop continues).
\<close>

definition scan_point :: "material \<Rightarrow> int \<Rightarrow> int \<Rightarrow> (rotation option \<times> real) option" where
  "scan_point m bn k =
     do {
       s \<leftarrow> np_get2 (signal_final m) k bn;
       if s = NOT_SOLVED then Some (None, 0)
       else do {
         kneigs \<leftarrow> np_get (neighbors m) k;
         let flag_neig = map (\<lambda>x. x \<noteq> - 1) kneigs;
         i_neigs \<leftarrow> np_mask (map int [0..<N_NEIGS]) flag_neig;
         kneigs \<leftarrow> np_mask kneigs flag_neig;
         sigs \<leftarrow> those (map (\<lambda>kn. np_get2 (signal_final m) kn bn) kneigs);
         let flag_neig = map (\<lambda>x. x \<noteq> NOT_SOLVED) sigs;
         i_neigs \<leftarrow> np_mask i_neigs flag_neig;
         kneigs \<leftarrow> np_mask kneigs flag_neig;
         if length kneigs = 0 then Some (None, 0)
         else do {
           bn_k \<leftarrow> np_get2 (bands_final m) k bn;
           bn_neighs \<leftarrow> those (map (\<lambda>kn. np_get2 (bands_final m) kn bn) kneigs);
           dps \<leftarrow> those (map (\<lambda>(i, b). np_get4 (connections m) k i bn_k b) (zip i_neigs bn_neighs));
           r \<leftarrow> (if list_ex in_window dps then rotation_entry m bn k i_neigs bn_k else Some None);
           mean \<leftarrow> np_mean dps;
           Some (r, mean)
         }
       }
     }"

text \<open>Lines 785-822 for one band: the rotations of the band and its final score.\<close>

definition scan_band :: "material \<Rightarrow> int \<Rightarrow> (rotation list \<times> real) option" where
  "scan_band m bn =
     do {
       pts \<leftarrow> those (map (scan_point m bn) (map int [0..<nks m]));
       if nks m = 0 then None
       else Some (concat (map (\<lambda>(r, x). case r of None \<Rightarrow> [] | Some e \<Rightarrow> [e]) pts),
                  sum_list (map snd pts) / real (nks m))
     }"

fun scan_bands :: "material \<Rightarrow> rotation list \<Rightarrow> real list \<Rightarrow> int list \<Rightarrow> (rotation list \<times> real list) option" where
  "scan_bands m rots F [] = Some (rots, F)"
| "scan_bands m rots F (bn # bns) =
     do {
       (rs, score) \<leftarrow> scan_band m bn;
       F' \<leftarrow> np_set F bn score;
       scan_bands m (rots @ rs) F' bns
     }"

subsection \<open>degenerate_final\<close>

text \<open>
  Lines 827-830: do two rotations belong together? The comparison \<^verbatim>\<open>k_deg == k_deg_\<close> of
  two arrays of different lengths is \<^verbatim>\<open>False\<close> (with a warning) before numpy 1.25 and
  raises from 1.25 on; the model takes the first.
\<close>

definition same_rotation :: "rotation \<Rightarrow> rotation \<Rightarrow> bool option" where
  "same_rotation r r' =
     (case (r, r') of ((k, k_deg, bn, bns_deg), (k', k_deg', bn', bns_deg')) \<Rightarrow>
        if k \<noteq> k' \<or> k_deg \<noteq> k_deg' then Some False
        else do {
          inside \<leftarrow> those (map (\<lambda>(j, bns). map_option (\<lambda>other. list_all (\<lambda>b. b \<in> set other) bns)
                                               (np_get bns_deg' j))
                              (enumerate_int bns_deg));
          Some (list_all (\<lambda>x. x) inside)
        })"

text \<open>
  Lines 833-844: an earlier row of \<^verbatim>\<open>degenerates\<close> for the same k-point and bands (one
  for which line 834 does not \<^verbatim>\<open>continue\<close>) makes the code compare energy gaps; that comparison calls \<^verbatim>\<open>np.array(1, -1)\<close>, which raises
  \<^verbatim>\<open>TypeError\<close> (\<open>-1\<close> is taken as a dtype).
\<close>

definition clashes :: "int \<Rightarrow> int \<Rightarrow> int \<Rightarrow> (int \<times> int \<times> int \<times> int list) \<Rightarrow> bool" where
  "clashes k bn bn' row =
     (case row of (k_c, bn_c1, bn_c2, k_deg_c) \<Rightarrow>
        k = k_c \<and> (bn \<in> {bn_c1, bn_c2} \<and> bn' \<in> {bn_c1, bn_c2}) \<and> k \<in> set k_deg_c)"

text \<open>The inner loop, line 826, for one rotation \<open>r\<close> against the rotations after it.\<close>

fun pair_with ::
  "rotation \<Rightarrow> (int \<times> int \<times> int \<times> int list) list \<Rightarrow> rotation list
     \<Rightarrow> (int \<times> int \<times> int \<times> int list) list option" where
  "pair_with r degenerates [] = Some degenerates"
| "pair_with r degenerates (r' # rest) =
     do {
       same \<leftarrow> same_rotation r r';
       if \<not> same then pair_with r degenerates rest
       else (case (r, r') of ((k, k_deg, bn, bns_deg), (k', k_deg', bn', bns_deg')) \<Rightarrow>
              if list_ex (clashes k bn bn') degenerates then None
              else pair_with r (degenerates @ [(k, bn, bn', k_deg)]) rest)
     }"

text \<open>The outer loop, line 825, over \<^verbatim>\<open>k_basis_rotation[:-1]\<close>.\<close>

fun all_pairs ::
  "(int \<times> int \<times> int \<times> int list) list \<Rightarrow> rotation list
     \<Rightarrow> (int \<times> int \<times> int \<times> int list) list option" where
  "all_pairs degenerates [] = Some degenerates"
| "all_pairs degenerates (r # rest) =
     do { degenerates' \<leftarrow> pair_with r degenerates rest; all_pairs degenerates' rest }"

subsection \<open>The whole function\<close>

definition obtain_output :: "material \<Rightarrow> material option" where
  "obtain_output m =
     do {
       let m = m\<lparr>degenerate_final := Some []\<rparr>;
       (solved_bands, m) \<leftarrow> solved_loop m [] (solved m);
       (solved_bands, m) \<leftarrow> clusters_loop m solved_bands (clusters_sorted m);
       S \<leftarrow> degenerados_loop m (signal_final m) (degenerados m);
       let m = m\<lparr>signal_final := S\<rparr>;
       (k_basis_rotation, F) \<leftarrow> scan_bands m [] (final_score m) (map int [0..<total_bands m]);
       let m = m\<lparr>final_score := F\<rparr>;
       degenerates \<leftarrow> all_pairs [] k_basis_rotation;
       Some (m\<lparr>degenerate_final := Some (map (\<lambda>(k, bn, bn', k_deg). [k, bn, bn']) degenerates)\<rparr>)
     }"

subsection \<open>Predicates for the statements about obtain_output\<close>

text \<open>Every entry of the array is \<open>-1\<close> or lies in \<open>[lo, hi]\<close>.\<close>

definition coverage :: "int list list \<Rightarrow> int \<Rightarrow> int \<Rightarrow> bool" where
  "coverage B lo hi = list_all (list_all (\<lambda>v. v = - 1 \<or> (lo \<le> v \<and> v \<le> hi))) B"

text \<open>
  What \<^verbatim>\<open>obtain_output\<close> writes into \<^verbatim>\<open>bands_final\<close> for the node \<open>n\<close> of a component
  (lines 725 and 752): the band of the node, \<^verbatim>\<open>n // nks + min_band\<close>, with \<open>nks\<close> the size of
  the matrix of k-points.
\<close>

definition node_value :: "material \<Rightarrow> int \<Rightarrow> int" where
  "node_value m n = np_div n (c_nks m) + min_band m"

text \<open>
  The node \<open>d\<close> of a degenerate pair carries the signal \<^const>\<open>DEGENERATE\<close>: at its
  k-point, in the column of \<open>B\<close> that holds its band (lines 768-778).
\<close>

definition marked :: "material \<Rightarrow> int list list \<Rightarrow> int list list \<Rightarrow> int \<Rightarrow> bool" where
  "marked m B S d =
     (case band_column B (np_mod d (int (nks m))) (np_div d (int (nks m)) + min_band m) of
        None \<Rightarrow> False
      | Some c \<Rightarrow> np_get2 S (np_mod d (int (nks m))) c = Some DEGENERATE)"

section \<open>The merger\<close>

subsection \<open>COMPONENT.validate and COMPONENT.join\<close>

text \<open>
  \<^verbatim>\<open>positions_matrix\<close> is the mask of the k-points of the nodes. The sum of the
  elementwise \<^verbatim>\<open>^\<close> of two masks is the number of k-points in exactly one of them.
\<close>

definition mask_xor_sum :: "int list \<Rightarrow> int list \<Rightarrow> int" where
  "mask_xor_sum ks1 ks2 =
     int (length (filter (\<lambda>k. k \<notin> set ks2) (remdups ks1)))
     + int (length (filter (\<lambda>k. k \<notin> set ks1) (remdups ks2)))"

text \<open>\<^verbatim>\<open>cluster.validate(sample)\<close>, lines 1092-1096.\<close>

definition validate :: "material \<Rightarrow> component \<Rightarrow> component \<Rightarrow> bool" where
  "validate m cluster sample =
     (int (N sample) \<le> c_nks m - int (N cluster)
      \<and> mask_xor_sum (k_points m cluster) (k_points m sample) = int (N cluster) + int (N sample))"

text \<open>
  \<^verbatim>\<open>cluster.join(sample)\<close>, lines 1098-1107. The new graph holds the nodes of the cluster
  followed by those of the sample that are new. \<^verbatim>\<open>calc_boundary\<close> rests on
  \<^verbatim>\<open>scipy.ndimage.correlate\<close>, which is outside the sources: it is the parameter
  \<open>boundary\<close>, from the nodes to \<^verbatim>\<open>k_edges\<close>.
\<close>

definition join :: "(int list \<Rightarrow> int list) \<Rightarrow> component \<Rightarrow> component \<Rightarrow> component" where
  "join boundary cluster sample =
     (let ns = nodes cluster @ filter (\<lambda>n. n \<notin> set (nodes cluster)) (remdups (nodes sample))
      in cluster\<lparr>was_modified := True, nodes := ns, k_edges := boundary ns\<rparr>)"

subsection \<open>The energies as a tensor\<close>

text \<open>\<^verbatim>\<open>make_BandsEnergy\<close>, lines 301-313: \<open>BandsEnergy[bn][i][j] = eigenvalues[j * nkx + i][bn]\<close>.\<close>

definition make_BandsEnergy :: "material \<Rightarrow> real list list list option" where
  "make_BandsEnergy m =
     those (map (\<lambda>bn. those (map (\<lambda>i. those (map (\<lambda>j.
                np_get2 (eigenvalues m) (int j * int (nkx m) + int i) (int bn))
              [0..<nky m])) [0..<nkx m])) [0..<total_bands m])"

definition np_get3 :: "'a list list list \<Rightarrow> int \<Rightarrow> int \<Rightarrow> int \<Rightarrow> 'a option" where
  "np_get3 E a b c = do { x \<leftarrow> np_get E a; y \<leftarrow> np_get x b; np_get y c }"

subsection \<open>COMPONENT.get_cluster_score\<close>

text \<open>
  The inner \<^verbatim>\<open>difference_energy\<close>, lines 1146-1154; \<open>Ei\<close> is \<^term>\<open>None\<close> for the default
  argument.
\<close>

definition cluster_difference_energy ::
  "material \<Rightarrow> real list list list \<Rightarrow> int \<Rightarrow> int \<Rightarrow> int \<times> int \<Rightarrow> int \<times> int \<Rightarrow> real option
     \<Rightarrow> real option" where
  "cluster_difference_energy m energies bn1 bn2 iK1 iK2 Ei =
     do {
       Ei \<leftarrow> (case Ei of None \<Rightarrow> np_get3 energies bn1 (fst iK1) (snd iK1) | Some e \<Rightarrow> Some e);
       others \<leftarrow> those (map (\<lambda>bn. np_get3 energies bn (fst iK2) (snd iK2))
                           [min_band m..max_band m]);
       E2 \<leftarrow> np_get3 energies bn2 (fst iK2) (snd iK2);
       if others = [] then None
       else
         let min_energy = Min (set (map (\<lambda>e. \<bar>Ei - e\<bar>) others));
             delta_energy = \<bar>Ei - E2\<bar>
         in Some (if delta_energy \<noteq> 0 then min_energy / delta_energy else 1)
     }"

text \<open>
  \<^verbatim>\<open>fit_energy\<close>, lines 1156-1195. \<open>fit X Es new_x\<close> stands for \<^verbatim>\<open>curve_fit\<close> of the second
  order polynomial through \<open>(X, Es)\<close>, evaluated at \<open>new_x\<close>.
\<close>

definition fit_energy ::
  "(int list \<Rightarrow> real list \<Rightarrow> int \<Rightarrow> real option) \<Rightarrow> material \<Rightarrow> real list list list \<Rightarrow> component
     \<Rightarrow> int \<Rightarrow> int \<Rightarrow> int \<times> int \<Rightarrow> int \<times> int \<Rightarrow> real option" where
  "fit_energy fit m energies sample bn1 bn2 iK1 iK2 =
     (case (iK1, iK2) of ((ik1, jk1), (ik_n, jk_n)) \<Rightarrow>
        let matrix = make_matrix (nkx m) (nky m);
            steps = [0, 1, 2, 3, 4];
            flag = (ik1 = ik_n);
            i = (if flag then replicate 5 ik1 else map (\<lambda>t. ik1 + t * sgn (ik1 - ik_n)) steps);
            j = (if \<not> flag then replicate 5 jk1 else map (\<lambda>t. jk1 + t * sgn (jk1 - jk_n)) steps);
            i = (if \<not> flag then filter (\<lambda>x. x < shape0 matrix) (filter (\<lambda>x. x \<ge> 0) i)
                 else replicate (length (filter (\<lambda>x. x < shape1 matrix) (filter (\<lambda>x. x \<ge> 0) j))) ik1);
            j = (if \<not> flag then replicate (length i) jk1
                 else filter (\<lambda>x. x < shape1 matrix) (filter (\<lambda>x. x \<ge> 0) j))
        in do {
          ks \<leftarrow> those (map (\<lambda>(a, b). np_get2 matrix a b) (zip i j));
          let exist_ks = map (\<lambda>e. e \<in> set (k_points m sample)) ks;
          ks \<leftarrow> np_mask ks exist_ks;
          if length ks \<le> 3 then cluster_difference_energy m energies bn1 bn2 iK1 iK2 None
          else do {
            aux_bands \<leftarrow> those (map (bands_number m sample) ks);
            let bands = map (\<lambda>b. b + min_band m) aux_bands;
            i \<leftarrow> np_mask i exist_ks;
            j \<leftarrow> np_mask j exist_ks;
            Es \<leftarrow> those (map (\<lambda>(b, a, c). np_get3 energies b a c) (zip bands (zip i j)));
            let X = (if jk1 = jk_n then i else j);
            let new_x = (if jk1 = jk_n then ik_n else jk_n);
            Enew \<leftarrow> fit X Es new_x;
            cluster_difference_energy m energies bn1 bn2 iK1 iK2 (Some Enew)
          }
        })"

text \<open>
  Lines 1201-1214, the computation of a score: over the boundary k-points of the sample
  and their neighbours on the boundary of the cluster, the sum of
  \<open>tol * connection + (1 - tol) * energy_val\<close>, divided by four times the number of
  boundary k-points. With no boundary k-point the division is \<open>0 / 0\<close> on Python
  integers, which raises.
\<close>

definition contact_terms ::
  "(int list \<Rightarrow> real list \<Rightarrow> int \<Rightarrow> real option) \<Rightarrow> material \<Rightarrow> real list list list \<Rightarrow> real
     \<Rightarrow> component \<Rightarrow> component \<Rightarrow> int \<Rightarrow> real list option" where
  "contact_terms fit m energies tol sample cluster k =
     do {
       b1 \<leftarrow> bands_number m sample k;
       let bn1 = b1 + min_band m;
       iK1 \<leftarrow> np_get (make_kpoints_index (nkx m) (nks m)) k;
       row \<leftarrow> np_get (neighbors m) k;
       terms \<leftarrow> those (map (\<lambda>(i_neig, k_n).
                  if k_n = - 1 \<or> k_n \<notin> set (k_edges cluster) then Some []
                  else do {
                    iK2 \<leftarrow> np_get (make_kpoints_index (nkx m) (nks m)) k_n;
                    b2 \<leftarrow> bands_number m cluster k_n;
                    let bn2 = b2 + min_band m;
                    connection \<leftarrow> np_get4 (connections m) k i_neig bn1 bn2;
                    energy_val \<leftarrow> fit_energy fit m energies sample bn1 bn2 iK1 iK2;
                    Some [tol * connection + (1 - tol) * energy_val]
                  }) (enumerate_int row));
       Some (concat terms)
     }"

definition compute_score ::
  "(int list \<Rightarrow> real list \<Rightarrow> int \<Rightarrow> real option) \<Rightarrow> material \<Rightarrow> real list list list \<Rightarrow> real
     \<Rightarrow> component \<Rightarrow> component \<Rightarrow> real option" where
  "compute_score fit m energies tol sample cluster =
     do {
       terms \<leftarrow> those (map (contact_terms fit m energies tol sample cluster) (k_edges sample));
       if k_edges sample = [] then None
       else Some (sum_list (concat terms) / real (length (k_edges sample) * 4))
     }"

text \<open>
  The whole method, lines 1198-1216. It returns the score together with the sample,
  whose dictionary \<^verbatim>\<open>scores\<close> it may have updated, and the cluster, whose flag line 1201
  assigns.
\<close>

definition get_cluster_score ::
  "(int list \<Rightarrow> real list \<Rightarrow> int \<Rightarrow> real option) \<Rightarrow> material \<Rightarrow> real list list list \<Rightarrow> real
     \<Rightarrow> component \<Rightarrow> component \<Rightarrow> (real \<times> component \<times> component) option" where
  "get_cluster_score fit m energies tol sample cluster =
     (if was_modified cluster then
        (case scores sample (cid cluster) of
           None \<Rightarrow> None
         | Some score \<Rightarrow> Some (score, sample, cluster))
      else
        do {
          let cluster = cluster\<lparr>was_modified := False\<rparr>;
          score \<leftarrow> compute_score fit m energies tol sample cluster;
          Some (score, sample\<lparr>scores := (scores sample)(cid cluster \<mapsto> score)\<rparr>, cluster)
        })"

subsection \<open>get_components\<close>

text \<open>
  \<^verbatim>\<open>np.max\<close> and \<^verbatim>\<open>np.argmax\<close>: both raise on an empty array; \<^verbatim>\<open>np.argmax\<close> gives the
  first index of the largest value.
\<close>

definition np_max :: "real list \<Rightarrow> real option" where
  "np_max xs = (if xs = [] then None else Some (Max (set xs)))"

definition np_argmax :: "real list \<Rightarrow> nat option" where
  "np_argmax xs =
     (if xs = [] then None
      else List.find (\<lambda>i. xs ! i = Max (set xs)) [0..<length xs])"

text \<open>Position \<open>a\<close> holds the largest value of \<open>xs\<close>, and no earlier position does.\<close>

definition first_best :: "real list \<Rightarrow> nat \<Rightarrow> bool" where
  "first_best xs a =
     (a < length xs \<and> list_all (\<lambda>i. xs ! i \<le> xs ! a) [0..<length xs]
      \<and> list_all (\<lambda>i. xs ! i < xs ! a) [0..<a])"

text \<open>
  Lines 655-668 for one sample: its scores against all clusters (0 where \<^verbatim>\<open>validate\<close>
  fails), the sample and the clusters as the calls of \<^verbatim>\<open>get_cluster_score\<close> leave them.
\<close>

fun score_clusters ::
  "(int list \<Rightarrow> real list \<Rightarrow> int \<Rightarrow> real option) \<Rightarrow> (int list \<Rightarrow> int list) \<Rightarrow> material
     \<Rightarrow> real list list list \<Rightarrow> real \<Rightarrow> component \<Rightarrow> component list
     \<Rightarrow> (real list \<times> component \<times> component list) option" where
  "score_clusters fit boundary m energies tol sample [] = Some ([], sample, [])"
| "score_clusters fit boundary m energies tol sample (cluster # rest) =
     (if \<not> validate m cluster sample then
        do {
          (ss, sample', rest') \<leftarrow> score_clusters fit boundary m energies tol sample rest;
          Some (0 # ss, sample', cluster # rest')
        }
      else
        do {
          let sample = (if length (k_edges sample) = 0
                        then sample\<lparr>k_edges := boundary (nodes sample)\<rparr> else sample);
          (s, sample1, cluster1) \<leftarrow> get_cluster_score fit m energies tol sample cluster;
          (ss, sample', rest') \<leftarrow> score_clusters fit boundary m energies tol sample1 rest;
          Some (s # ss, sample', cluster1 # rest')
        })"

text \<open>
  Lines 653-670: the array \<^verbatim>\<open>evaluate_samples\<close>, one row \<open>(best score, best cluster)\<close> per
  sample, with the samples and clusters after the scoring.
\<close>

fun score_samples ::
  "(int list \<Rightarrow> real list \<Rightarrow> int \<Rightarrow> real option) \<Rightarrow> (int list \<Rightarrow> int list) \<Rightarrow> material
     \<Rightarrow> real list list list \<Rightarrow> real \<Rightarrow> component list \<Rightarrow> component list
     \<Rightarrow> ((real \<times> nat) list \<times> component list \<times> component list) option" where
  "score_samples fit boundary m energies tol cls [] = Some ([], [], cls)"
| "score_samples fit boundary m energies tol cls (sample # rest) =
     do {
       (row, sample', cls') \<leftarrow> score_clusters fit boundary m energies tol sample cls;
       best \<leftarrow> np_max row;
       arg \<leftarrow> np_argmax row;
       (evals, rest', cls'') \<leftarrow> score_samples fit boundary m energies tol cls' rest;
       Some ((best, arg) # evals, sample' # rest', cls'')
     }"

text \<open>The lists the loop works on: \<^verbatim>\<open>samples\<close>, \<^verbatim>\<open>clusters\<close> and \<^verbatim>\<open>self.solved\<close>.\<close>

record merger =
  samples :: "component list"
  m_clusters :: "component list"
  m_solved :: "component list"

text \<open>
  One pass of the \<^verbatim>\<open>while\<close> loop, lines 653-685. The second component of the result is
  \<^verbatim>\<open>arg_max\<close>, the position of the sample that was popped.
\<close>

definition merge_round ::
  "(int list \<Rightarrow> real list \<Rightarrow> int \<Rightarrow> real option) \<Rightarrow> (int list \<Rightarrow> int list) \<Rightarrow> material
     \<Rightarrow> real list list list \<Rightarrow> real \<Rightarrow> merger \<Rightarrow> (merger \<times> nat) option" where
  "merge_round fit boundary m energies tol st =
     do {
       (evals, samples', cls) \<leftarrow>
         score_samples fit boundary m energies tol (m_clusters st) (samples st);
       let cls = map (\<lambda>c. c\<lparr>was_modified := False\<rparr>) cls;
       arg_max \<leftarrow> np_argmax (map fst evals);
       let sample = samples' ! arg_max;
       let samples' = take arg_max samples' @ drop (Suc arg_max) samples';
       let bn = snd (evals ! arg_max);
       if bn \<ge> length cls then None
       else
         let joined = (join boundary (cls ! bn) sample)\<lparr>was_modified := True\<rparr>;
             cls' = cls[bn := joined]
         in if N joined = nks m
            then Some (\<lparr>samples = samples',
                         m_clusters = take bn cls' @ drop (Suc bn) cls',
                         m_solved = m_solved st @ [joined]\<rparr>, arg_max)
            else Some (\<lparr>samples = samples', m_clusters = cls', m_solved = m_solved st\<rparr>,
                       arg_max)
     }"

text \<open>
  The loop, lines 652-685. Every pass pops one sample, so the number of passes is the
  number of samples at the start; \<open>n\<close> counts the passes that remain.
\<close>

fun merge_loop ::
  "(int list \<Rightarrow> real list \<Rightarrow> int \<Rightarrow> real option) \<Rightarrow> (int list \<Rightarrow> int list) \<Rightarrow> material
     \<Rightarrow> real list list list \<Rightarrow> real \<Rightarrow> nat \<Rightarrow> merger \<Rightarrow> merger option" where
  "merge_loop fit boundary m energies tol 0 st = Some st"
| "merge_loop fit boundary m energies tol (Suc n) st =
     (if length (samples st) > 0 then
        do {
          (st', arg_max) \<leftarrow> merge_round fit boundary m energies tol st;
          merge_loop fit boundary m energies tol n st'
        }
      else Some st)"

text \<open>
  Lines 628-647: the components in the order of decreasing size
  (\<^verbatim>\<open>np.argsort(...)[::-1]\<close>) become solved, clusters or samples.
\<close>

fun classify :: "(int list \<Rightarrow> int list) \<Rightarrow> material \<Rightarrow> merger \<Rightarrow> component list \<Rightarrow> merger" where
  "classify boundary m st [] = st"
| "classify boundary m st (c # cs) =
     (if N c = nks m then classify boundary m (st\<lparr>m_solved := m_solved st @ [c]\<rparr>) cs
      else
        let c = c\<lparr>k_edges := boundary (nodes c)\<rparr> in
        if length (m_clusters st) = 0
        then classify boundary m (st\<lparr>m_clusters := m_clusters st @ [c]\<rparr>) cs
        else if \<not> list_ex (\<lambda>cluster. validate m cluster c) (m_clusters st)
        then classify boundary m (st\<lparr>m_clusters := m_clusters st @ [c]\<rparr>) cs
        else classify boundary m (st\<lparr>samples := samples st @ [c]\<rparr>) cs)"

text \<open>
  \<^verbatim>\<open>get_components\<close> up to line 685, from the connected components of the graph (found
  by \<^verbatim>\<open>networkx\<close>) to the lists after the merger.
\<close>

definition get_components ::
  "(int list \<Rightarrow> real list \<Rightarrow> int \<Rightarrow> real option) \<Rightarrow> (int list \<Rightarrow> int list) \<Rightarrow> material
     \<Rightarrow> real list list list \<Rightarrow> real \<Rightarrow> component list \<Rightarrow> merger option" where
  "get_components fit boundary m energies tol components =
     (let index_sorted = rev (np_argsort (map N components));
          st = classify boundary m \<lparr>samples = [], m_clusters = [], m_solved = []\<rparr>
                 (map (\<lambda>i. components ! i) index_sorted)
      in merge_loop fit boundary m energies tol (length (samples st)) st)"

subsection \<open>COMPONENT.calc_boundary\<close>

text \<open>
  \<^verbatim>\<open>calculate_pointsMatrix\<close>, lines 1075-1081: the mask of the k-points of the nodes on the
  grid, \<open>positions_matrix[i][j] = 1\<close> where the k-point \<open>j * nkx + i\<close> has a node.
\<close>

definition positions_matrix :: "material \<Rightarrow> int list \<Rightarrow> int list list" where
  "positions_matrix m ns =
     map (\<lambda>i. map (\<lambda>j. if int j * int (nkx m) + int i \<in> set (map (\<lambda>n. np_mod n (c_nks m)) ns)
                        then 1 else 0) [0..<nky m]) [0..<nkx m]"

text \<open>
  \<^verbatim>\<open>scipy.ndimage.correlate\<close> with a 3 x 3 kernel, \<^verbatim>\<open>mode='reflect'\<close> and \<^verbatim>\<open>origin=0\<close>: the
  array is extended by repeating its border cells, and
  \<open>out[i][j] = \<Sum> a b. K[a][b] * P[i + a - 1][j + b - 1]\<close>.
\<close>

definition reflect :: "nat \<Rightarrow> int \<Rightarrow> nat" where
  "reflect n i = (if i < 0 then nat (- i - 1) else if i \<ge> int n then nat (2 * int n - 1 - i) else nat i)"

definition correlate :: "int list list \<Rightarrow> int list list \<Rightarrow> int list list" where
  "correlate P K =
     map (\<lambda>i. map (\<lambda>j.
            sum_list (map (\<lambda>a. sum_list (map (\<lambda>b.
                K ! a ! b * P ! reflect (length P) (int i + int a - 1)
                              ! reflect (length (P ! i)) (int j + int b - 1))
              [0..<3])) [0..<3]))
          [0..<length (P ! i)]) [0..<length P]"

definition Gx :: "int list list" where
  "Gx = replicate 3 [- 1, 0, 1]"

definition Gy :: "int list list" where
  "Gy = [[- 1, - 1, - 1], [0, 0, 0], [1, 1, 1]]"

text \<open>Line 1123-1124 at one cell: \<open>sqrt(Ax ** 2 + Ay ** 2) * P > 0\<close>.\<close>

definition boundary_cell :: "int \<Rightarrow> int \<Rightarrow> int \<Rightarrow> bool" where
  "boundary_cell ax ay p = (sqrt (real_of_int (ax ^ 2 + ay ^ 2)) * real_of_int p > 0)"

text \<open>
  \<^verbatim>\<open>calc_boundary\<close>, lines 1109-1127: the k-points of the component with a non-zero
  gradient of the mask, row by row (\<^verbatim>\<open>self.matrix[self.boundary]\<close>), and all the k-points
  of the component when there is none.
\<close>

definition calc_boundary :: "material \<Rightarrow> int list \<Rightarrow> int list" where
  "calc_boundary m ns =
     (let P = positions_matrix m ns;
          Ax = correlate P Gx;
          Ay = correlate P Gy;
          matrix = make_matrix (nkx m) (nky m);
          k_edges = concat (map (\<lambda>i. concat (map (\<lambda>j.
                        if boundary_cell (Ax ! i ! j) (Ay ! i ! j) (P ! i ! j)
                        then [matrix ! i ! j] else [])
                      [0..<nky m])) [0..<nkx m])
      in if length k_edges = 0 then map (\<lambda>n. np_mod n (c_nks m)) ns else k_edges)"

subsection \<open>get_components: from the graph to the components\<close>

text \<open>
  \<^verbatim>\<open>nx.connected_components\<close> is a function of \<^verbatim>\<open>networkx\<close>, a parameter \<open>cc\<close> here: it
  gives the node lists of the components of a graph (\<^verbatim>\<open>np.array(subgraph.nodes)\<close>, lines
  624-627, 1069). All that is used of it is that a component consists of nodes of the
  graph.
\<close>

definition cc_contract :: "(graph \<Rightarrow> int list list) \<Rightarrow> bool" where
  "cc_contract cc = (\<forall>G. list_all (\<lambda>c. set c \<subseteq> set (g_nodes G)) (cc G))"

text \<open>The nodes of a list of components.\<close>

definition nodes_of :: "component list \<Rightarrow> int set" where
  "nodes_of cs = (\<Union>c\<in>set cs. set (nodes c))"

text \<open>
  Lines 693-702: \<^verbatim>\<open>labels\<close> has \<open>nks * nbnd\<close> entries and is indexed with the nodes of
  every solved component and every cluster; a node outside \<open>[-nks * nbnd, nks * nbnd)\<close>
  raises \<^verbatim>\<open>IndexError\<close>.
\<close>

definition labels_ok :: "material \<Rightarrow> component \<Rightarrow> bool" where
  "labels_ok m c =
     list_all (\<lambda>n. - (int (nks m) * int (nbnd m)) \<le> n \<and> n < int (nks m) * int (nbnd m)) (nodes c)"

text \<open>
  The whole method on the object: the components of \<^verbatim>\<open>self.GRAPH\<close>, the classification
  and the merger (\<^const>\<open>get_components\<close>), the labels, and \<^verbatim>\<open>self.solved\<close> and
  \<^verbatim>\<open>self.clusters\<close> assigned. \<^verbatim>\<open>self.ENERGIES\<close> is the tensor that \<^verbatim>\<open>make_vectors\<close> stored.
\<close>

definition get_components_run ::
  "(int list \<Rightarrow> real list \<Rightarrow> int \<Rightarrow> real option) \<Rightarrow> (graph \<Rightarrow> int list list) \<Rightarrow> real \<Rightarrow> material
     \<Rightarrow> material option" where
  "get_components_run fit cc tol m =
     do {
       energies \<leftarrow> make_BandsEnergy m;
       st \<leftarrow> get_components fit (calc_boundary m) m energies tol (map comp (cc (GRAPH m)));
       if list_all (labels_ok m) (m_solved st @ m_clusters st)
       then Some (m\<lparr>solved := m_solved st, clusters := m_clusters st\<rparr>)
       else None
     }"

text \<open>
  One function that meets \<^const>\<open>cc_contract\<close>, to run the method on concrete graphs: the
  nodes reachable from a node, in the order of the nodes of the graph.
\<close>

definition adjacent :: "graph \<Rightarrow> int \<Rightarrow> int list" where
  "adjacent G v =
     concat (map (\<lambda>(a, b). (if a = v then [b] else []) @ (if b = v then [a] else [])) (g_edges G))"

fun reach_nodes :: "nat \<Rightarrow> graph \<Rightarrow> int list \<Rightarrow> int list" where
  "reach_nodes 0 G seen = seen"
| "reach_nodes (Suc n) G seen = reach_nodes n G (remdups (seen @ concat (map (adjacent G) seen)))"

fun components_from :: "graph \<Rightarrow> int list \<Rightarrow> int list \<Rightarrow> int list list" where
  "components_from G seen [] = []"
| "components_from G seen (v # vs) =
     (if v \<in> set seen then components_from G seen vs
      else let c = filter (\<lambda>n. n \<in> set (reach_nodes (length (g_nodes G)) G [v])) (g_nodes G)
           in c # components_from G (seen @ c) vs)"

definition connected_components :: "graph \<Rightarrow> int list list" where
  "connected_components G = components_from G [] (g_nodes G)"

section \<open>correct_signal\<close>

text \<open>\<^verbatim>\<open>np.where(A == x)\<close> on a two-dimensional array: the positions row by row.\<close>

definition np_where2 :: "int list list \<Rightarrow> int \<Rightarrow> (int \<times> int) list" where
  "np_where2 A x =
     concat (map (\<lambda>(k, row). map (\<lambda>(bn, v). (k, bn)) (filter (\<lambda>(bn, v). v = x) (enumerate_int row)))
               (enumerate_int A))"

text \<open>\<^verbatim>\<open>A[ks, bns] = v\<close> with two index arrays.\<close>

fun np_set2_all :: "'a list list \<Rightarrow> (int \<times> int) list \<Rightarrow> 'a \<Rightarrow> 'a list list option" where
  "np_set2_all A [] v = Some A"
| "np_set2_all A ((k, bn) # rest) v = do { A' \<leftarrow> np_set2 A k bn v; np_set2_all A' rest v }"

text \<open>\<^verbatim>\<open>T[bns, iks, jks] = v\<close> with three index arrays.\<close>

fun np_set3_all :: "'a list list list \<Rightarrow> (int \<times> int \<times> int) list \<Rightarrow> 'a \<Rightarrow> 'a list list list option" where
  "np_set3_all T [] v = Some T"
| "np_set3_all T ((bn, ik, jk) # rest) v =
     do { P \<leftarrow> np_get T bn; P' \<leftarrow> np_set2 P ik jk v; T' \<leftarrow> np_set T bn P'; np_set3_all T' rest v }"

text \<open>\<^verbatim>\<open>xs[lo:hi]\<close>: a negative bound counts from the end, and both are cut to the list.\<close>

definition py_slice :: "'a list \<Rightarrow> int \<Rightarrow> int \<Rightarrow> 'a list" where
  "py_slice xs lo hi =
     (let n = int (length xs);
          lo' = (if lo < 0 then max (lo + n) 0 else min lo n);
          hi' = (if hi < 0 then max (hi + n) 0 else min hi n)
      in take (nat (hi' - lo')) (drop (nat lo') xs))"

text \<open>
  Lines 913-921: every point signalled 4 or 3 is judged by \<^verbatim>\<open>evaluate_point\<close> on the
  result of \<^verbatim>\<open>obtain_output\<close>, and the verdict is written into \<^verbatim>\<open>correct_signalfinal\<close>.
\<close>

fun evaluate_points ::
  "(int list \<Rightarrow> real list \<Rightarrow> int \<Rightarrow> real option) \<Rightarrow> material \<Rightarrow> int list list \<Rightarrow> (int \<times> int) list
     \<Rightarrow> int list list option" where
  "evaluate_points fit m C [] = Some C"
| "evaluate_points fit m C ((k, bn) # rest) =
     do {
       (signal, scores) \<leftarrow>
         evaluate_point fit k bn (make_kpoints_index (nkx m) (nks m)) (make_matrix (nkx m) (nky m))
           (signal_final m) (bands_final m) (eigenvalues m);
       C' \<leftarrow> np_set2 C k bn signal;
       evaluate_points fit m C' rest
     }"

text \<open>
  Lines 947-951: the points of a band that need correction. With more than 5 % of the
  k-points signalled, the neighbours of a signalled point count too (a 3 x 3 filter of
  ones). The comparison is one of doubles in the source and exact here.
\<close>

definition identify_points :: "material \<Rightarrow> int list list \<Rightarrow> bool list list" where
  "identify_points m band =
     (if real_of_int (sum_list (map sum_list band)) > real (nks m) * 0.05
      then map (map (\<lambda>x. x > 0)) (correlate band (replicate 3 [1, 1, 1]))
      else map (map (\<lambda>x. x > 0)) band)"

text \<open>
  Lines 964-965: the node that stands for the k-point \<open>kp\<close> in the physical band \<open>bn\<close>,
  computed from the band that \<^verbatim>\<open>bands_final\<close> holds there.
\<close>

definition edge_node :: "material \<Rightarrow> int \<Rightarrow> int \<Rightarrow> int option" where
  "edge_node m kp bn =
     do { v \<leftarrow> np_get2 (bands_final m) kp bn; Some (kp + (v - min_band m) * int (nks m)) }"

text \<open>
  Lines 953-966 for one grid cell: no edge leaves a point that needs correction, unless
  its k-point occurs in \<^verbatim>\<open>degenerate_final\<close> (\<^verbatim>\<open>kp not in array\<close> looks at every entry of
  the array); otherwise an edge goes to the next cell in each of the two directions
  when that cell is on the grid and needs no correction.
\<close>

definition cell_edges ::
  "material \<Rightarrow> int list \<Rightarrow> int \<Rightarrow> bool list list \<Rightarrow> int \<Rightarrow> int \<Rightarrow> (int \<times> int) list option" where
  "cell_edges m deg bn ident ik jk =
     (let matrix = make_matrix (nkx m) (nky m) in
      do {
        kp \<leftarrow> np_get2 matrix ik jk;
        need_correction \<leftarrow> np_get2 ident ik jk;
        if need_correction \<and> kp \<notin> set deg then Some []
        else
          map_option concat (those (map (\<lambda>(di, dj).
            let ikn = ik + di; jkn = jk + dj in
            if ikn \<ge> shape0 matrix \<or> jkn \<ge> shape1 matrix then Some []
            else do {
              kneig \<leftarrow> np_get2 matrix ikn jkn;
              idn \<leftarrow> np_get2 ident ikn jkn;
              if \<not> idn then do {
                p \<leftarrow> edge_node m kp bn;
                pn \<leftarrow> edge_node m kneig bn;
                Some [(p, pn)]
              } else Some []
            }) [(1, 0), (0, 1)]))
      })"

definition band_edges ::
  "material \<Rightarrow> int list \<Rightarrow> int \<Rightarrow> bool list list \<Rightarrow> (int \<times> int) list option" where
  "band_edges m deg bn ident =
     map_option concat (those (concat (map (\<lambda>(ik, row).
       map (\<lambda>(jk, need). cell_edges m deg bn ident ik jk) (enumerate_int row))
       (enumerate_int ident))))"

text \<open>
  Lines 945-970, the loop over the bands of the window: the edges of the band go into
  the new graph, \<^verbatim>\<open>correct_signalfinal_prev\<close> becomes a copy of \<^verbatim>\<open>correct_signalfinal\<close>,
  and the points \<open>k_ot\<close> get the signal 4.
\<close>

fun signal_bands ::
  "material \<Rightarrow> int list \<Rightarrow> (int \<times> int) list \<Rightarrow> graph \<Rightarrow> int list list \<Rightarrow> int list list
     \<Rightarrow> (int \<times> int list list) list \<Rightarrow> (graph \<times> int list list \<times> int list list) option" where
  "signal_bands m deg k_ot G C Cprev [] = Some (G, C, Cprev)"
| "signal_bands m deg k_ot G C Cprev ((bn, band) # rest) =
     do {
       edges \<leftarrow> band_edges m deg bn (identify_points m band);
       C' \<leftarrow> np_set2_all C k_ot (CORRECT - 1);
       signal_bands m deg k_ot (add_edges_from G edges) C' C rest
     }"

text \<open>
  The method, lines 895-970. The constants are those of the source: \<^verbatim>\<open>CORRECT - 1\<close> is
  4, and the local \<^verbatim>\<open>OTHER\<close> and \<^verbatim>\<open>MISTAKE\<close> are 3 and 1.
\<close>

definition correct_signal ::
  "(int list \<Rightarrow> real list \<Rightarrow> int \<Rightarrow> real option) \<Rightarrow> material \<Rightarrow> material option" where
  "correct_signal fit m =
     do {
       m \<leftarrow> obtain_output m;
       let C = map (map (\<lambda>v. if v = CORRECT then CORRECT - 1 else v)) (signal_final m);
       let pts = np_where2 (signal_final m) POTENTIAL_CORRECT
                 @ np_where2 (signal_final m) POTENTIAL_MISTAKE;
       C \<leftarrow> evaluate_points fit m C pts;
       let error = np_where2 C 1;
       let other = np_where2 C 3;
       other_same \<leftarrow> those (map (\<lambda>(k, bn). map_option (\<lambda>v. v = 3)
                                 (np_get2 (correct_signalfinal_prev m) k bn)) other);
       let k_ot = map fst (filter snd (zip other other_same));
       let other = map fst (filter (\<lambda>(p, same). \<not> same) (zip other other_same));
       let pts = error @ other;
       k_index \<leftarrow> those (map (\<lambda>(k, bn). np_get (make_kpoints_index (nkx m) (nks m)) k) pts);
       bands_signaling \<leftarrow>
         np_set3_all (replicate (total_bands m) (replicate (nkx m) (replicate (nky m) 0)))
           (map (\<lambda>((k, bn), (ik, jk)). (bn, ik, jk)) (zip pts k_index)) 1;
       deg \<leftarrow> map_option concat (degenerate_final m);
       let G = \<lparr>g_nodes = map int [0..<n_vectors m], g_edges = []\<rparr>;
       let window = py_slice bands_signaling (min_band m) (max_band m + 1);
       (G, C, Cprev) \<leftarrow>
         signal_bands m deg k_ot G C (correct_signalfinal_prev m)
           (map (\<lambda>(bn, band). (bn + min_band m, band)) (enumerate_int window));
       Some (m\<lparr>GRAPH := G, correct_signalfinal := C, correct_signalfinal_prev := Cprev\<rparr>)
     }"

section \<open>The solver with its stages\<close>

text \<open>What a stage leaves on the object, as \<^const>\<open>solve_body\<close> takes it.\<close>

definition out_of :: "material \<Rightarrow> stage_out" where
  "out_of m =
     \<lparr>o_bands_final = bands_final m, o_final_score = final_score m,
      o_signal_final = signal_final m, o_degenerate_final = degenerate_final m,
      o_correct_signalfinal = correct_signalfinal m,
      o_correct_signalfinal_prev = correct_signalfinal_prev m,
      o_GRAPH = GRAPH m, o_solved = solved m, o_clusters = clusters m\<rparr>"

text \<open>
  Lines 1007-1015: \<^verbatim>\<open>get_components\<close>, \<^verbatim>\<open>obtain_output\<close>, \<^verbatim>\<open>correct_signal\<close>. The two
  calls of \<^verbatim>\<open>print_report\<close> only log and store the text of the report.
\<close>

definition solve_stages ::
  "(int list \<Rightarrow> real list \<Rightarrow> int \<Rightarrow> real option) \<Rightarrow> (graph \<Rightarrow> int list list) \<Rightarrow> real \<Rightarrow> material
     \<Rightarrow> stage_out option" where
  "solve_stages fit cc TOL m =
     do {
       m \<leftarrow> get_components_run fit cc TOL m;
       m \<leftarrow> obtain_output m;
       m \<leftarrow> correct_signal fit m;
       Some (out_of m)
     }"

text \<open>Line 1043.\<close>

definition solve_correct_signal ::
  "(int list \<Rightarrow> real list \<Rightarrow> int \<Rightarrow> real option) \<Rightarrow> material \<Rightarrow> stage_out option" where
  "solve_correct_signal fit m = map_option out_of (correct_signal fit m)"

subsection \<open>The states of a run\<close>

text \<open>
  The object after \<^verbatim>\<open>make_vectors\<close> and \<^verbatim>\<open>make_connections\<close> is \<open>m0\<close>. The relation holds
  for every state the object goes through in \<^verbatim>\<open>solve\<close>, from the initialisation of lines
  990-999 on: each rule is one of the assignments or calls of lines 1004-1050, and the
  rules may follow each other in any order, which covers the order of the source.
\<close>

inductive reachable ::
  "(int list \<Rightarrow> real list \<Rightarrow> int \<Rightarrow> real option) \<Rightarrow> (graph \<Rightarrow> int list list) \<Rightarrow> material \<Rightarrow> material
     \<Rightarrow> bool"
  for fit :: "int list \<Rightarrow> real list \<Rightarrow> int \<Rightarrow> real option" and cc :: "graph \<Rightarrow> int list list"
    and m0 :: material where
  r_init: "reachable fit cc m0 (solve_init m0)"
| r_components:
    "reachable fit cc m0 m \<Longrightarrow> get_components_run fit cc tol m = Some m' \<Longrightarrow> reachable fit cc m0 m'"
| r_output: "reachable fit cc m0 m \<Longrightarrow> obtain_output m = Some m' \<Longrightarrow> reachable fit cc m0 m'"
| r_signal: "reachable fit cc m0 m \<Longrightarrow> correct_signal fit m = Some m' \<Longrightarrow> reachable fit cc m0 m'"
| r_stages:
    "reachable fit cc m0 m \<Longrightarrow> solve_stages fit cc tol m = Some out
       \<Longrightarrow> reachable fit cc m0 (store_out m out)"
| r_stage_signal:
    "reachable fit cc m0 m \<Longrightarrow> solve_correct_signal fit m = Some out
       \<Longrightarrow> reachable fit cc m0 (store_out m out)"
| r_previous: "reachable fit cc m0 m \<Longrightarrow> reachable fit cc m0 (m\<lparr>bands_final_prev := bands_final m\<rparr>)"
| r_best:
    "reachable fit cc m0 m \<Longrightarrow>
       reachable fit cc m0 (m\<lparr>best_bands_final := bands_final m, best_score := final_score m,
                               best_signal_final := Some (signal_final m),
                               degenerate_best := degenerate_final m\<rparr>)"
| r_restore:
    "reachable fit cc m0 m \<Longrightarrow> best_signal_final m = Some bsf \<Longrightarrow>
       reachable fit cc m0 (m\<lparr>bands_final := best_bands_final m, final_score := best_score m,
                               signal_final := bsf, degenerate_final := degenerate_best m\<rparr>)"

subsection \<open>Predicates for the coverage of bands_final\<close>

text \<open>A value of \<^verbatim>\<open>bands_final\<close> that the coverage allows.\<close>

definition covered :: "material \<Rightarrow> int \<Rightarrow> bool" where
  "covered m v = (v = - 1 \<or> (min_band m \<le> v \<and> v \<le> max_band m))"

text \<open>
  The grid and the window as \<^verbatim>\<open>make_vectors\<close> leaves them: \<open>nks\<close> k-points on the
  \<open>nkx\<close> by \<open>nky\<close> grid, and \<open>nbnd\<close> bands from \<open>min_band\<close> to \<open>max_band\<close> (lines 356 and 408).
\<close>

definition well_formed :: "material \<Rightarrow> bool" where
  "well_formed m =
     (nks m = nkx m * nky m \<and> 0 < nks m \<and> max_band m = min_band m + int (nbnd m) - 1)"

text \<open>
  The nodes of the graph: none is negative, except those that stand for an entry \<open>-1\<close>
  of \<^verbatim>\<open>bands_final\<close>.
\<close>

definition graph_ok :: "material \<Rightarrow> bool" where
  "graph_ok m = list_all (\<lambda>n. 0 \<le> n \<or> node_value m n = - 1) (g_nodes (GRAPH m))"

text \<open>The nodes of the solved components and of the clusters stand for covered values.\<close>

definition components_ok :: "material \<Rightarrow> bool" where
  "components_ok m =
     list_all (\<lambda>c. list_all (\<lambda>n. covered m (node_value m n)) (nodes c)) (solved m @ clusters m)"

text \<open>
  The state before \<^verbatim>\<open>solve\<close>: \<^verbatim>\<open>bands_final\<close> as line 409 creates it, the graph of
  \<^verbatim>\<open>make_connections\<close> with no negative node, and no components yet.
\<close>

definition start_state :: "material \<Rightarrow> bool" where
  "start_state m =
     (well_formed m
      \<and> bands_final m = replicate (nks m) (replicate (total_bands m) (- 1))
      \<and> list_all (\<lambda>n. 0 \<le> n) (g_nodes (GRAPH m))
      \<and> solved m = [] \<and> clusters m = [])"

text \<open>The invariant of the run.\<close>

definition solve_inv :: "material \<Rightarrow> material \<Rightarrow> bool" where
  "solve_inv m0 m =
     (nkx m = nkx m0 \<and> nky m = nky m0 \<and> nks m = nks m0 \<and> nbnd m = nbnd m0
      \<and> min_band m = min_band m0 \<and> max_band m = max_band m0
      \<and> coverage (bands_final m) (min_band m0) (max_band m0)
      \<and> coverage (best_bands_final m) (min_band m0) (max_band m0)
      \<and> graph_ok m \<and> components_ok m)"

subsection \<open>A concrete run of the loop\<close>





subsection \<open>Concrete states for obtain_output\<close>

definition blank :: material where
  "blank =
     \<lparr>nkx = 0, nky = 0, nks = 0, nbnd = 0, total_bands = 0, min_band = 0, max_band = 0,
      eigenvalues = [], connections = [], neighbors = [], degenerados = [],
      GRAPH = \<lparr>g_nodes = [], g_edges = []\<rparr>, solved = [], clusters = [],
      bands_final = [], bands_final_prev = [], best_bands_final = [], final_score = [],
      best_score = [], signal_final = [], best_signal_final = None,
      degenerate_final = None, degenerate_best = None,
      correct_signalfinal = [], correct_signalfinal_prev = []\<rparr>"


text \<open>
  A 2 x 2 grid with two bands, both solved. The overlaps follow the bands (1 within a
  band, 0 across) except out of k-point 0, where every overlap is 0.7. The energies
  differ everywhere, so there is no degenerate pair.
\<close>

definition rotation_state :: material where
  "rotation_state =
     (let clean = [[1, 0], [0, 1]]; amb = [[0.7, 0.7], [0.7, 0.7]] in
      blank\<lparr>nkx := 2, nky := 2, nks := 4, nbnd := 2, total_bands := 2, min_band := 0, max_band := 1,
        eigenvalues := [[0, 1], [0.1, 1.1], [0.1, 1.1], [0.2, 1.2]],
        connections := [[amb, amb, clean, clean], replicate 4 clean, replicate 4 clean,
                        replicate 4 clean],
        neighbors := [[1, 2, - 1, - 1], [- 1, 3, 0, - 1], [3, - 1, - 1, 0], [- 1, - 1, 2, 1]],
        solved := [comp [0, 1, 2, 3], comp [4, 5, 6, 7]],
        clusters := [],
        bands_final := replicate 4 (replicate 2 (- 1)),
        signal_final := replicate 4 (replicate 2 0),
        final_score := replicate 2 0\<rparr>)"

text \<open>
  The same grid with equal energies of the two bands at k-point 0: the nodes 0 and 4
  are a degenerate pair.
\<close>

definition degenerate_state :: material where
  "degenerate_state =
     rotation_state\<lparr>eigenvalues := [[0.5, 0.5], [0.1, 1.1], [0.1, 1.1], [0.2, 1.2]],
                    degenerados := [(0, 4)]\<rparr>"

subsection \<open>A concrete state for the merger\<close>

text \<open>
  A 3 x 2 grid with one band; node \<open>k\<close> is the k-point \<open>k = j * 3 + i\<close> at \<open>(i, j)\<close>. The
  overlap is 0.9 between the k-points 0 and 1, 1 and 2, 4 and 5, and 0.4 between all
  other neighbours. With the tolerance 0.5 the graph has the edges 0-1, 1-2 and 4-5, so
  its connected components are \<open>{0, 1, 2}\<close>, \<open>{3}\<close> and \<open>{4, 5}\<close>.
\<close>

definition merger_state :: material where
  "merger_state =
     (let hi = [[0.9]]; lo = [[0.4]]; no = [[0]] in
      blank\<lparr>nkx := 3, nky := 2, nks := 6, nbnd := 1, total_bands := 1, min_band := 0, max_band := 0,
        eigenvalues := [[0], [0.1], [0.2], [0.1], [0.2], [0.3]],
        connections := [[hi, lo, no, no], [hi, lo, hi, no], [no, lo, hi, no],
                        [lo, no, no, lo], [hi, no, lo, lo], [no, no, hi, lo]],
        neighbors := [[1, 3, - 1, - 1], [2, 4, 0, - 1], [- 1, 5, 1, - 1],
                      [4, - 1, - 1, 0], [5, - 1, 3, 1], [- 1, - 1, 4, 2]]\<rparr>)"

definition merger_components :: "component list" where
  "merger_components = [comp [0, 1, 2], comp [3], comp [4, 5]]"

text \<open>The energies of \<^const>\<open>merger_state\<close> as \<^verbatim>\<open>make_BandsEnergy\<close> arranges them.\<close>

definition merger_energies :: "real list list list" where
  "merger_energies = [[[0, 0.1], [0.1, 0.2], [0.2, 0.3]]]"

text \<open>The lists at line 651, after the components have been classified.\<close>

definition merger_start :: merger where
  "merger_start =
     classify (calc_boundary merger_state) merger_state
       \<lparr>samples = [], m_clusters = [], m_solved = []\<rparr>
       (map (\<lambda>i. merger_components ! i) (rev (np_argsort (map N merger_components))))"

subsection \<open>A concrete run of solve with its stages\<close>

text \<open>
  \<^const>\<open>merger_state\<close> as \<^verbatim>\<open>make_vectors\<close> leaves it, with the six nodes and
  \<^verbatim>\<open>bands_final\<close> all \<open>-1\<close>, and as \<^verbatim>\<open>make_connections\<close> leaves it with the tolerance 0.5.
\<close>

definition run_fresh :: material where
  "run_fresh = merger_state\<lparr>GRAPH := \<lparr>g_nodes = map int [0..<6], g_edges = []\<rparr>,
                 bands_final := replicate 6 (replicate 1 (- 1))\<rparr>"

definition run_start :: material where
  "run_start = run_fresh\<lparr>GRAPH := \<lparr>g_nodes = map int [0..<6],
      g_edges = [(0, 1), (1, 2), (1, 0), (2, 1), (4, 5), (5, 4)]\<rparr>\<rparr>"

section \<open>Lemmas and theorems\<close>

subsection \<open>Lists, options and numpy indexing\<close>

lemma those_map_Some:
  "those (map f xs) = Some ys \<Longrightarrow> length ys = length xs \<and> (\<forall>i<length xs. f (xs ! i) = Some (ys ! i))"
proof (induction xs arbitrary: ys)
  case Nil
  then show ?case by simp
next
  case (Cons a xs)
  then obtain y ys' where y: "f a = Some y" and r: "those (map f xs) = Some ys'" and ys: "ys = y # ys'"
    by (auto split: option.splits)
  from Cons.IH[OF r] show ?case using y ys by (auto simp: nth_Cons split: nat.splits)
qed

lemma those_map_set:
  "those (map f xs) = Some ys \<Longrightarrow> set (zip xs ys) = {(x, y). x \<in> set xs \<and> f x = Some y}"
proof (induction xs arbitrary: ys)
  case Nil
  then show ?case by simp
next
  case (Cons a xs)
  then obtain y ys' where y: "f a = Some y" and r: "those (map f xs) = Some ys'" and ys: "ys = y # ys'"
    by (auto split: option.splits)
  from Cons.IH[OF r] show ?case using y ys by auto
qed

lemma nth_tile:
  "p < n * length xs \<Longrightarrow> concat (replicate n xs) ! p = xs ! (p mod length xs)"
proof (induction n arbitrary: p)
  case 0
  then show ?case by simp
next
  case (Suc n)
  show ?case
  proof (cases "p < length xs")
    case True
    then show ?thesis by (simp add: nth_append)
  next
    case False
    then have "p - length xs < n * length xs" using Suc.prems by simp
    from Suc.IH[OF this] False show ?thesis
      by (simp add: nth_append le_mod_geq)
  qed
qed

lemma nth_repeat:
  "p < c * length ys \<Longrightarrow> concat (map (replicate c) ys) ! p = ys ! (p div c)"
proof (induction ys arbitrary: p)
  case Nil
  then show ?case by simp
next
  case (Cons a ys)
  show ?case
  proof (cases "p < c")
    case True
    then show ?thesis by (simp add: nth_append)
  next
    case False
    then have "p - c < c * length ys" using Cons.prems by simp
    from Cons.IH[OF this] False show ?thesis
      by (simp add: nth_append le_div_geq) (metis Cons.prems Suc_diff_le div_greater_zero_iff  diff_Suc_Suc le_div_geq mult_is_0 not_less nth_Cons_Suc zero_less_iff_neq_zero less_nat_zero_code)
  qed
qed

lemma length_tile: "length (concat (replicate n xs)) = n * length xs"
  by (induction n) auto

lemma length_repeat: "length (concat (map (replicate c) ys)) = c * length ys"
  by (induction ys) auto

lemma those_map_concat:
  assumes "those (map f xs) = Some ys"
  shows "set (concat ys) = {e. \<exists>x y. x \<in> set xs \<and> f x = Some y \<and> e \<in> set y}"
proof -
  from those_map_Some[OF assms] have len: "length ys = length xs" by simp
  have "set ys = snd ` set (zip xs ys)" using len
    by (metis map_snd_zip set_map)
  also have "\<dots> = {y. \<exists>x. x \<in> set xs \<and> f x = Some y}"
    unfolding those_map_set[OF assms] by force
  finally show ?thesis by auto
qed

lemma np_mask_set:
  "np_mask xs sel = Some ys \<Longrightarrow> set ys = {xs ! p | p. p < length xs \<and> sel ! p}"
proof -
  assume a: "np_mask xs sel = Some ys"
  then have len: "length sel = length xs" and ys: "ys = map fst (filter snd (zip xs sel))"
    by (auto simp: np_mask_def split: if_splits)
  have "set ys = fst ` {z \<in> set (zip xs sel). snd z}" using ys by auto
  also have "\<dots> = {xs ! p | p. p < length xs \<and> sel ! p}"
    using len by (auto simp: set_zip image_iff) force
  finally show ?thesis .
qed

lemma np_get_nat:
  "n < length xs \<Longrightarrow> np_get xs (int n) = Some (xs ! n)"
  by (simp add: np_get_def)

lemma np_get_in_range:
  "0 \<le> i \<Longrightarrow> i < int (length xs) \<Longrightarrow> np_get xs i = Some (xs ! nat i)"
  by (simp add: np_get_def)

lemma np_get_list_all: "np_get xs i = Some x \<Longrightarrow> list_all P xs \<Longrightarrow> P x"
  by (auto simp: np_get_def Let_def list_all_length split: if_splits)

lemma np_set_list_all: "np_set xs i v = Some xs' \<Longrightarrow> list_all P xs \<Longrightarrow> P v \<Longrightarrow> list_all P xs'"
  by (auto simp: np_set_def Let_def list_all_length nth_list_update split: if_splits)

lemma np_set2_list_all:
  assumes "np_set2 A i j v = Some A'" "list_all (list_all P) A" "P v"
  shows "list_all (list_all P) A'"
proof -
  from assms(1) obtain row row' where r: "np_get A i = Some row" "np_set row j v = Some row'"
    "np_set A i row' = Some A'"
    by (auto simp: np_set2_def split: Option.bind_splits)
  from np_get_list_all[OF r(1) assms(2)] have "list_all P row" .
  from np_set_list_all[OF r(2) this assms(3)] have "list_all P row'" .
  from np_set_list_all[OF r(3) assms(2) this] show ?thesis .
qed

lemma np_get_pos: "np_get xs i = map_option (\<lambda>p. xs ! p) (np_pos (length xs) i)"
  by (simp add: np_get_def np_pos_def Let_def)

lemma np_set_pos: "np_set xs i v = map_option (\<lambda>p. xs[p := v]) (np_pos (length xs) i)"
  by (simp add: np_set_def np_pos_def Let_def)

lemma np_pos_less: "np_pos n i = Some p \<Longrightarrow> p < n"
  by (auto simp: np_pos_def split: if_splits)

lemma np_set_length: "np_set xs i v = Some xs' \<Longrightarrow> length xs' = length xs"
  by (auto simp: np_set_pos)

lemma np_set_get:
  assumes "np_set xs i v = Some xs'"
  shows "np_get xs' j = (if np_pos (length xs) j = np_pos (length xs) i then Some v else np_get xs j)"
proof -
  from assms obtain p where p: "np_pos (length xs) i = Some p" and xs': "xs' = xs[p := v]"
    by (auto simp: np_set_pos)
  show ?thesis
  proof (cases "np_pos (length xs) j")
    case None
    then show ?thesis using p xs' by (simp add: np_get_pos)
  next
    case (Some q)
    then show ?thesis using p xs' np_pos_less[OF p] np_pos_less[OF Some]
      by (simp add: np_get_pos nth_list_update)
  qed
qed

lemma np_set2_get2:
  assumes set: "np_set2 A i j v = Some A'" and row: "np_get A i = Some row"
  shows "np_get2 A' i' j' =
           (if np_pos (length A) i' = np_pos (length A) i
            then (if np_pos (length row) j' = np_pos (length row) j then Some v else np_get row j')
            else np_get2 A i' j')"
proof -
  from set row obtain row' where r: "np_set row j v = Some row'" and A': "np_set A i row' = Some A'"
    by (auto simp: np_set2_def split: Option.bind_splits)
  have "np_get A' i' = (if np_pos (length A) i' = np_pos (length A) i then Some row' else np_get A i')"
    by (rule np_set_get[OF A'])
  then show ?thesis using np_set_get[OF r, of j'] by (simp add: np_get2_def)
qed

lemma np_set2_same:
  assumes "np_set2 A i j v = Some A'"
  shows "np_get2 A' i j = Some v"
proof -
  from assms obtain row where row: "np_get A i = Some row"
    by (auto simp: np_set2_def split: Option.bind_splits)
  show ?thesis using np_set2_get2[OF assms row, of i j] by simp
qed

lemma np_set2_keeps:
  assumes set: "np_set2 A i j v = Some A'" and old: "np_get2 A i' j' = Some v"
  shows "np_get2 A' i' j' = Some v"
proof -
  from set obtain row where row: "np_get A i = Some row"
    by (auto simp: np_set2_def split: Option.bind_splits)
  show ?thesis
  proof (cases "np_pos (length A) i' = np_pos (length A) i")
    case True
    then have "np_get A i' = Some row" using row by (simp add: np_get_pos)
    then have "np_get row j' = Some v" using old by (simp add: np_get2_def)
    then show ?thesis using np_set2_get2[OF set row, of i' j'] True by simp
  next
    case False
    then show ?thesis using np_set2_get2[OF set row, of i' j'] old by simp
  qed
qed

lemma np_argsort_set: "set (np_argsort xs) = {0..<length xs}"
proof -
  have z: "map snd (zip xs [0..<length xs]) = [0..<length xs]"
    by (rule map_snd_zip) simp
  have "set (np_argsort xs) = snd ` set (zip xs [0..<length xs])"
    by (simp add: np_argsort_def)
  also have "\<dots> = set (map snd (zip xs [0..<length xs]))"
    by (simp only: set_map)
  also have "\<dots> = {0..<length xs}"
    unfolding z by simp
  finally show ?thesis .
qed

subsection \<open>evaluate_result\<close>

text \<open>
  C3. The thresholds of the signal are \<open>m > 0.9\<close> for 5, \<open>0.8 < m \<le> 0.9\<close> for 4,
  \<open>0.2 < m \<le> 0.8\<close> for 3 and \<open>m \<le> 0.2\<close> for 1, and the claim and the docstring of
  the function both put a mean of exactly 0.8 in class 3. The third test of the code is
  \<^verbatim>\<open>value > TOL_MIN and value < TOL_DEG\<close>, strict on both sides, so a mean of exactly 0.8
  falls through to the last \<^verbatim>\<open>return MISTAKE\<close>: the signal is 1, not 3.
\<close>

theorem evaluate_result_at_TOL_DEG:
  "evaluate_result [0.8] = MISTAKE \<and> evaluate_result [0.8] \<noteq> POTENTIAL_MISTAKE"
  by (simp add: evaluate_result_def np_mean_def MISTAKE_def POTENTIAL_MISTAKE_def)

text \<open>Away from 0.8 the code follows the table of the claim.\<close>

lemma evaluate_result_table:
  assumes "np_mean vs = Some m" and "m \<noteq> 0.8"
  shows "evaluate_result vs =
           (if m > 0.9 then CORRECT
            else if 0.8 < m \<and> m \<le> 0.9 then POTENTIAL_CORRECT
            else if 0.2 < m \<and> m \<le> 0.8 then POTENTIAL_MISTAKE
            else MISTAKE)"
  using assms by (auto simp: evaluate_result_def)

subsection \<open>make_connections\<close>

lemma neighbors_ok_row:
  assumes "neighbors_ok m" "0 \<le> k" "k < int (nks m)"
  shows "np_get (neighbors m) k = Some (neighbors m ! nat k)"
    and "length (neighbors m ! nat k) = 4"
    and "d < 4 \<Longrightarrow> neighbors m ! nat k ! d = - 1
           \<or> (0 \<le> neighbors m ! nat k ! d \<and> neighbors m ! nat k ! d < int (nks m))"
proof -
  have k: "nat k < length (neighbors m)" using assms by (simp add: neighbors_ok_def)
  show "np_get (neighbors m) k = Some (neighbors m ! nat k)"
    using assms(2) k by (intro np_get_in_range) simp_all
  have row: "length (neighbors m ! nat k) = 4
      \<and> list_all (\<lambda>x. x = - 1 \<or> (0 \<le> x \<and> x < int (nks m))) (neighbors m ! nat k)"
    using assms(1) k by (simp add: neighbors_ok_def list_all_length)
  then show "length (neighbors m ! nat k) = 4" by simp
  show "d < 4 \<Longrightarrow> neighbors m ! nat k ! d = - 1
           \<or> (0 \<le> neighbors m ! nat k ! d \<and> neighbors m ! nat k ! d < int (nks m))"
    using row by (simp add: list_all_length)
qed

text \<open>The targets of a node: every neighbour k-point combined with every band.\<close>

lemma targets_set:
  fixes row :: "int list" and nk :: int
  assumes row: "length row = 4"
    and bc: "np_broadcast2 (\<lambda>n b. n + b * nk) (concat (replicate B row))
               (concat (map (replicate 4) [0..mx])) = Some ks0"
    and msk: "np_mask ks0 (map (\<lambda>n. n \<noteq> - 1) (concat (replicate B row))) = Some ks"
    and B: "0 < B"
  shows "int B = mx + 1
     \<and> set ks = {row ! d + b * nk | d b. d < 4 \<and> row ! d \<noteq> - 1 \<and> 0 \<le> b \<and> b < int B}"
proof -
  let ?neighs = "concat (replicate B row)"
  let ?bands = "concat (map (replicate 4) [0..mx])"
  have ln: "length ?neighs = B * 4" using row by (simp add: length_tile)
  have lb: "length ?bands = 4 * length [0..mx]" by (simp add: length_repeat)
  have eq: "length ?neighs = length ?bands"
  proof (rule ccontr)
    assume ne: "length ?neighs \<noteq> length ?bands"
    have "length ?neighs \<noteq> 1" using ln by presburger
    moreover have "length ?bands \<noteq> 1" using lb by presburger
    ultimately show False using bc ne by (simp add: np_broadcast2_def)
  qed
  then have Bl: "B = length [0..mx]" using ln lb by simp
  then have Bmx: "int B = mx + 1" using B by simp
  have ks0: "ks0 = map (\<lambda>(n, b). n + b * nk) (zip ?neighs ?bands)"
    using bc eq by (simp add: np_broadcast2_def)
  have lks0: "length ks0 = B * 4" using ks0 eq ln by simp
  have nth_ks0: "ks0 ! p = row ! (p mod 4) + int (p div 4) * nk" if "p < B * 4" for p
  proof -
    have 1: "?neighs ! p = row ! (p mod 4)" using nth_tile[of p B row] that row by simp
    have "p < 4 * length [0..mx]" using that Bl by simp
    then have "?bands ! p = [0..mx] ! (p div 4)" by (rule nth_repeat)
    moreover have "p div 4 < B" using that by simp
    ultimately have 2: "?bands ! p = int (p div 4)"
      using Bl by (simp add: nth_upto)
    show ?thesis using that 1 2 ks0 eq ln by simp
  qed
  have "set ks = {ks0 ! p | p. p < length ks0 \<and> map (\<lambda>n. n \<noteq> - 1) ?neighs ! p}"
    by (rule np_mask_set[OF msk])
  also have "\<dots> = {row ! (p mod 4) + int (p div 4) * nk | p. p < B * 4 \<and> row ! (p mod 4) \<noteq> - 1}"
  proof -
    have sel: "\<And>p. p < B * 4 \<Longrightarrow> map (\<lambda>n. n \<noteq> - 1) ?neighs ! p = (row ! (p mod 4) \<noteq> - 1)"
      using ln nth_tile[of _ B row] row by simp
    show ?thesis
    proof (intro set_eqI iffI; clarify)
      fix p assume "p < length ks0" "map (\<lambda>n. n \<noteq> - 1) ?neighs ! p"
      then show "\<exists>q. ks0 ! p = row ! (q mod 4) + int (q div 4) * nk \<and> q < B * 4 \<and> row ! (q mod 4) \<noteq> - 1"
        using lks0 nth_ks0[of p] sel[of p] by (intro exI[of _ p]) simp
    next
      fix p assume "p < B * 4" "row ! (p mod 4) \<noteq> - 1"
      then show "\<exists>q. row ! (p mod 4) + int (p div 4) * nk = ks0 ! q \<and> q < length ks0
                  \<and> map (\<lambda>n. n \<noteq> - 1) ?neighs ! q"
        using lks0 nth_ks0[of p] sel[of p] by (intro exI[of _ p]) simp
    qed
  qed
  also have "\<dots> = {row ! d + b * nk | d b. d < 4 \<and> row ! d \<noteq> - 1 \<and> 0 \<le> b \<and> b < int B}"
  proof (intro set_eqI iffI; clarify)
    fix p assume p: "p < B * 4" "row ! (p mod 4) \<noteq> - 1"
    show "\<exists>d b. row ! (p mod 4) + int (p div 4) * nk = row ! d + b * nk
             \<and> d < 4 \<and> row ! d \<noteq> - 1 \<and> 0 \<le> b \<and> b < int B"
      by (rule exI[of _ "p mod 4"], rule exI[of _ "int (p div 4)"]) (use p in auto)
  next
    fix d :: nat and b :: int assume d: "d < 4" "row ! d \<noteq> - 1" "0 \<le> b" "b < int B"
    let ?p = "nat b * 4 + d"
    have "nat b < B" using d by (simp add: nat_less_iff)
    then have "?p < B * 4" using d by linarith
    moreover have "?p mod 4 = d" "?p div 4 = nat b" using d by simp_all
    ultimately show "\<exists>p. row ! d + b * nk = row ! (p mod 4) + int (p div 4) * nk
             \<and> p < B * 4 \<and> row ! (p mod 4) \<noteq> - 1"
      using d by (intro exI[of _ ?p]) simp
  qed
  finally show ?thesis using Bmx by simp
qed

lemma edge_test_sem:
  assumes ok: "neighbors_ok m" and k1: "0 \<le> k1" "k1 < int (nks m)"
    and t: "edge_test m tol k1 bn1 j = Some x"
  shows "x = (\<exists>d<4. neighbors m ! nat k1 ! d = j mod int (nks m)
                \<and> (case np_get4 (connections m) k1 (int d) bn1 (j div int (nks m) + min_band m) of
                      None \<Rightarrow> False | Some c \<Rightarrow> c > tol))"
proof -
  let ?row = "neighbors m ! nat k1"
  let ?k2 = "j mod int (nks m)"
  let ?bn2 = "j div int (nks m) + min_band m"
  let ?ineig = "filter (\<lambda>i. ?row ! i = ?k2) [0..<length ?row]"
  note r = neighbors_ok_row[OF ok k1]
  from t r(1) obtain conn where
    conn: "those (map (\<lambda>i. np_get4 (connections m) k1 (int i) bn1 ?bn2) ?ineig) = Some conn"
    and res: "(case conn of [c] \<Rightarrow> Some (c > tol) | _ \<Rightarrow> None) = Some x"
    by (auto simp: edge_test_def Let_def split: Option.bind_splits)
  from res obtain c where c: "conn = [c]" and x: "x = (c > tol)"
    by (auto split: list.splits)
  from those_map_Some[OF conn] c have l1: "length ?ineig = 1"
    and g0: "\<forall>i<length ?ineig. np_get4 (connections m) k1 (int (?ineig ! i)) bn1 ?bn2 = Some ([c] ! i)"
    by simp_all
  from g0 l1 have g: "np_get4 (connections m) k1 (int (?ineig ! 0)) bn1 ?bn2 = Some c"
    by (metis nth_Cons_0 zero_less_one)
  from l1 obtain d where d: "?ineig = [d]" by (cases ?ineig) auto
  then have "d \<in> set ?ineig" by simp
  then have d4: "d < 4" and dk: "?row ! d = ?k2" using r(2) by auto
  have uniq: "d' = d" if "d' < 4" "?row ! d' = ?k2" for d'
  proof -
    have "d' \<in> set ?ineig" using that r(2) by simp
    then show ?thesis using d by simp
  qed
  show ?thesis
  proof
    assume "x"
    then show "\<exists>d<4. ?row ! d = ?k2
                \<and> (case np_get4 (connections m) k1 (int d) bn1 ?bn2 of
                      None \<Rightarrow> False | Some c \<Rightarrow> c > tol)"
      using d4 dk g d x by (intro exI[of _ d]) simp
  next
    assume "\<exists>d<4. ?row ! d = ?k2
                \<and> (case np_get4 (connections m) k1 (int d) bn1 ?bn2 of
                      None \<Rightarrow> False | Some c \<Rightarrow> c > tol)"
    then obtain d' where "d' < 4" "?row ! d' = ?k2"
      and cc: "(case np_get4 (connections m) k1 (int d') bn1 ?bn2 of
                      None \<Rightarrow> False | Some c \<Rightarrow> c > tol)" by blast
    then have "d' = d" using uniq by simp
    then show "x" using cc g d x by simp
  qed
qed

lemma node_edges_set:
  assumes ok: "neighbors_ok m" and mb: "min_band m = 0"
    and i: "0 \<le> i" "i < int (n_vectors m)"
    and run: "node_edges m tol (concat (map (replicate 4) [0..max_band m])) i = Some es"
  shows "set es = {(i, j) | j. overlap_link m tol i j}"
proof -
  let ?nk = "int (nks m)"
  let ?k1 = "i mod ?nk"
  let ?bn1 = "i div ?nk + min_band m"
  let ?row = "neighbors m ! nat ?k1"
  have nk: "0 < ?nk" using ok by (simp add: neighbors_ok_def)
  have k1: "0 \<le> ?k1" "?k1 < ?nk" using nk by simp_all
  note r = neighbors_ok_row[OF ok k1]
  have B: "0 < nbnd m" using i by (cases "nbnd m") (simp_all add: n_vectors_def)
  from run r(1) obtain ks0 ks found where
    bc: "np_broadcast2 (\<lambda>n b. n + b * ?nk) (concat (replicate (nbnd m) ?row))
               (concat (map (replicate 4) [0..max_band m])) = Some ks0"
    and msk: "np_mask ks0 (map (\<lambda>n. n \<noteq> - 1) (concat (replicate (nbnd m) ?row))) = Some ks"
    and found: "those (map (edge_test m tol ?k1 ?bn1) ks) = Some found"
    and es: "es = map (\<lambda>(j', c). (i, j')) (filter snd (zip ks found))"
    by (auto simp: node_edges_def Let_def split: Option.bind_splits)
  from targets_set[OF r(2) bc msk B]
  have ks: "set ks = {?row ! d + b * ?nk | d b. d < 4 \<and> ?row ! d \<noteq> - 1 \<and> 0 \<le> b \<and> b < int (nbnd m)}"
    by simp
  have zf: "set (zip ks found) = {(x, y). x \<in> set ks \<and> edge_test m tol ?k1 ?bn1 x = Some y}"
    by (rule those_map_set[OF found])
  have mem: "(a, j) \<in> set es \<longleftrightarrow> a = i \<and> j \<in> set ks \<and> edge_test m tol ?k1 ?bn1 j = Some True" for a j
    unfolding es using zf by force
  have V: "int (n_vectors m) = int (nbnd m) * ?nk" by (simp add: n_vectors_def)
  have inks: "0 \<le> j \<and> j < int (n_vectors m) \<and> j mod ?nk = ?row ! d \<and> j div ?nk = b"
    if "d < 4" "?row ! d \<noteq> - 1" "0 \<le> b" "b < int (nbnd m)" "j = ?row ! d + b * ?nk" for j d b
  proof -
    from r(3)[OF that(1)] that(2) have rd: "0 \<le> ?row ! d" "?row ! d < ?nk" by auto
    have "j mod ?nk = ?row ! d" using that(5) rd by simp
    moreover have "j div ?nk = b" using that(5) rd nk by simp
    moreover have "0 \<le> j" using that(3,5) rd nk by simp
    moreover have "j < int (nbnd m) * ?nk"
    proof -
      have "b + 1 \<le> int (nbnd m)" using that(4) by simp
      then have "(b + 1) * ?nk \<le> int (nbnd m) * ?nk" using nk by (intro mult_right_mono) simp_all
      then show ?thesis using that(5) rd by (simp add: algebra_simps)
    qed
    ultimately show ?thesis using V by simp
  qed
  show ?thesis
  proof (intro set_eqI iffI; clarify)
    fix a j assume "(a, j) \<in> set es"
    then have a: "a = i" and jk: "j \<in> set ks" and t: "edge_test m tol ?k1 ?bn1 j = Some True"
      using mem by simp_all
    from jk ks obtain d b where db: "d < 4" "?row ! d \<noteq> - 1" "0 \<le> b" "b < int (nbnd m)"
        "j = ?row ! d + b * ?nk" by auto
    note j = inks[OF db]
    from edge_test_sem[OF ok k1 t] obtain d' where d': "d' < 4" "?row ! d' = j mod ?nk"
      and c: "(case np_get4 (connections m) ?k1 (int d') ?bn1 (j div ?nk + min_band m) of
                      None \<Rightarrow> False | Some c \<Rightarrow> c > tol)" by auto
    have g2: "np_get2 (neighbors m) ?k1 (int d') = Some (j mod ?nk)"
      using r(1,2) d' by (simp add: np_get2_def np_get_nat)
    have "overlap_link m tol i j"
      unfolding overlap_link_def list_ex_iff
      using i j g2 c d'(1) by (auto intro!: bexI[of _ d'])
    then show "\<exists>j'. (a, j) = (i, j') \<and> overlap_link m tol i j'" using a by simp
  next
    fix j assume ol: "overlap_link m tol i j"
    then obtain d where j: "0 \<le> j" "j < int (n_vectors m)" and d: "d < 4"
      and g2: "np_get2 (neighbors m) ?k1 (int d) = Some (j mod ?nk)"
      and c: "(case np_get4 (connections m) ?k1 (int d) ?bn1 (j div ?nk + min_band m) of
                      None \<Rightarrow> False | Some c \<Rightarrow> c > tol)"
      unfolding overlap_link_def list_ex_iff by auto
    have rd: "?row ! d = j mod ?nk" using g2 r(1,2) d by (simp add: np_get2_def np_get_nat)
    have "j div ?nk < int (nbnd m)"
    proof (rule ccontr)
      assume "\<not> j div ?nk < int (nbnd m)"
      then have "int (nbnd m) * ?nk \<le> (j div ?nk) * ?nk" using nk by (intro mult_right_mono) simp_all
      also have "\<dots> \<le> j" using nk by (metis k1(1) add.commute le_add_same_cancel2 mod_mult_div_eq mult.commute pos_mod_sign)
      finally show False using j V by simp
    qed
    moreover have "0 \<le> j div ?nk" using j nk by (simp add: pos_imp_zdiv_nonneg_iff)
    moreover have "?row ! d \<noteq> - 1"
    proof -
      have "0 \<le> j mod ?nk" using nk by simp
      then show ?thesis using rd by simp
    qed
    moreover have "j = ?row ! d + (j div ?nk) * ?nk" using rd by simp
    ultimately have jk: "j \<in> set ks" unfolding ks using d by blast
    then obtain p where p: "p < length ks" "ks ! p = j" by (auto simp: in_set_conv_nth)
    from those_map_Some[OF found] p have "edge_test m tol ?k1 ?bn1 j = Some (found ! p)" by auto
    then obtain x where t: "edge_test m tol ?k1 ?bn1 j = Some x" by blast
    from edge_test_sem[OF ok k1 t] rd c d have "x" by auto
    then show "(i, j) \<in> set es" using mem jk t by simp
  qed
qed

lemma connection_component_set:
  assumes ok: "neighbors_ok m" and mb: "min_band m = 0"
    and run: "connection_component m tol (map int [0..<n_vectors m]) = Some es"
  shows "set es = {(i, j). overlap_link m tol i j}"
proof -
  have first: "np_get (neighbors m) 0 = Some (neighbors m ! 0)" "length (neighbors m ! 0) = 4"
    using neighbors_ok_row[OF ok, of 0] ok by (simp_all add: neighbors_ok_def)
  let ?bands = "concat (map (replicate 4) [0..max_band m])"
  from run first mb obtain ess where
    ess: "those (map (node_edges m tol ?bands) (map int [0..<n_vectors m])) = Some ess"
    and es: "es = concat ess"
    by (auto simp: connection_component_def Let_def split: Option.bind_splits)
  have "set es = {e. \<exists>x y. x \<in> set (map int [0..<n_vectors m])
                   \<and> node_edges m tol ?bands x = Some y \<and> e \<in> set y}"
    unfolding es by (rule those_map_concat[OF ess])
  also have "\<dots> = {(i, j). overlap_link m tol i j}"
  proof (intro set_eqI iffI; clarify)
    fix a b x y
    assume x: "x \<in> set (map int [0..<n_vectors m])"
      and y: "node_edges m tol ?bands x = Some y" and e: "(a, b) \<in> set y"
    from x have xr: "0 \<le> x" "x < int (n_vectors m)" by auto
    from node_edges_set[OF ok mb xr y] e show "overlap_link m tol a b" by auto
  next
    fix a b assume ol: "overlap_link m tol a b"
    then have ar: "0 \<le> a" "a < int (n_vectors m)" by (simp_all add: overlap_link_def)
    then have "nat a < n_vectors m" by simp
    then have ain: "a \<in> set (map int [0..<n_vectors m])" using ar
      by (metis atLeastLessThan_iff atLeastLessThan_upt image_eqI int_nat_eq list.set_map zero_le)
    then obtain p where p: "p < n_vectors m" "a = int p" by auto
    from those_map_Some[OF ess] p
    have "node_edges m tol ?bands a = Some (ess ! p)" by simp
    moreover from node_edges_set[OF ok mb ar this] ol have "(a, b) \<in> set (ess ! p)" by simp
    ultimately show "\<exists>x y. x \<in> set (map int [0..<n_vectors m])
                   \<and> node_edges m tol ?bands x = Some y \<and> (a, b) \<in> set y"
      using ain by blast
  qed
  finally show ?thesis .
qed

text \<open>
  C7, as the claim states it: an edge between \<open>n1\<close> and \<open>n2\<close> exists if and only if the
  k-point of \<open>n2\<close> is a neighbour of the k-point of \<open>n1\<close> and the overlap from \<open>n1\<close> to
  \<open>n2\<close> exceeds \<open>tol\<close>. On two k-points with overlap 0.9 from node 0 to node 1 and 0.96
  from node 1 to node 0, and \<open>tol = 0.95\<close>, the graph has the edge between 0 and 1 (added
  from node 1) although the overlap from 0 to 1 does not exceed the tolerance.
\<close>

theorem make_connections_one_sided_counterexample:
  "(case make_connections_edges two_points 0.95 of
      None \<Rightarrow> False
    | Some m' \<Rightarrow> has_edge (GRAPH m') 0 1 \<and> \<not> overlap_link two_points 0.95 0 1)"
  by code_simp

lemma two_points_run: "make_connections_edges two_points 0.95 \<noteq> None"
  by code_simp

lemma two_points_ok: "neighbors_ok two_points"
  by code_simp

text \<open>
  C7, amended. With \<open>min_band = 0\<close> and a neighbour table of the grid, the graph that
  \<^verbatim>\<open>make_connections\<close> builds before the repair of degenerate pairs has an edge between
  \<open>n1\<close> and \<open>n2\<close> if and only if the overlap exceeds \<open>tol\<close> from \<open>n1\<close> to \<open>n2\<close> or from
  \<open>n2\<close> to \<open>n1\<close>: the graph is undirected, so one direction is enough. The edge set is
  symmetric.
\<close>

theorem make_connections_edges_iff:
  assumes "neighbors_ok m" and "min_band m = 0"
    and "g_edges (GRAPH m) = []"
    and "make_connections_edges m tol = Some m'"
  shows "(has_edge (GRAPH m') n1 n2 \<longleftrightarrow> overlap_link m tol n1 n2 \<or> overlap_link m tol n2 n1)
       \<and> (has_edge (GRAPH m') n1 n2 \<longleftrightarrow> has_edge (GRAPH m') n2 n1)"
proof -
  from assms(4) obtain es where
    es: "connection_component m tol (map int [0..<n_vectors m]) = Some es"
    and m': "m' = m\<lparr>GRAPH := add_edges_from (GRAPH m) es\<rparr>"
    by (auto simp: make_connections_edges_def split: Option.bind_splits)
  have "g_edges (GRAPH m') = es" using m' assms(3) by (simp add: add_edges_from_def)
  then have "has_edge (GRAPH m') n1 n2 \<longleftrightarrow> overlap_link m tol n1 n2 \<or> overlap_link m tol n2 n1"
    using connection_component_set[OF assms(1,2) es] by (auto simp: has_edge_def)
  moreover have "has_edge (GRAPH m') n1 n2 \<longleftrightarrow> has_edge (GRAPH m') n2 n1"
    by (auto simp: has_edge_def)
  ultimately show ?thesis by blast
qed

theorem make_connections_edges_iff_witness:
  "neighbors_ok two_points \<and> min_band two_points = 0 \<and> g_edges (GRAPH two_points) = []
   \<and> (\<exists>m'. make_connections_edges two_points 0.95 = Some m'
          \<and> has_edge (GRAPH m') 0 1 \<and> has_edge (GRAPH m') 1 0
          \<and> overlap_link two_points 0.95 1 0)"
proof -
  obtain m' where run: "make_connections_edges two_points 0.95 = Some m'"
    using two_points_run by blast
  have mb: "min_band two_points = 0" and ge: "g_edges (GRAPH two_points) = []"
    by (simp_all add: two_points_def)
  have ol: "overlap_link two_points 0.95 1 0" by code_simp
  from make_connections_edges_iff[OF two_points_ok mb ge run, of 0 1] ol
  have "has_edge (GRAPH m') 0 1" "has_edge (GRAPH m') 1 0" by blast+
  then show ?thesis using two_points_ok mb ge run ol by blast
qed

subsection \<open>evaluate_point\<close>

lemma direction_points_empty:
  assumes g: "in_grid k_matrix (ik, jk)"
    and dir: "dir \<in> set directions"
    and out: "list_all (\<lambda>t. \<not> in_grid k_matrix (t * fst dir + ik, t * snd dir + jk)) [1, 2, 3, 4]"
  shows "fst (direction_points k_matrix ik jk dir) = []"
proof -
  from dir consider "dir = (1, 0)" | "dir = (0, 1)" | "dir = (- 1, 0)" | "dir = (0, - 1)"
    by (auto simp: directions_def)
  then show ?thesis
  proof cases
    case 1
    then show ?thesis using g out
      by (simp add: direction_points_def in_grid_def Let_def)
  next
    case 2
    then show ?thesis using g out
      by (simp add: direction_points_def in_grid_def Let_def)
  next
    case 3
    then show ?thesis using g out
      by (simp add: direction_points_def in_grid_def Let_def)
  next
    case 4
    then show ?thesis using g out
      by (simp add: direction_points_def in_grid_def Let_def)
  qed
qed

lemma energy_val_empty:
  assumes "fst (direction_points k_matrix ik jk dir) = []"
  shows "energy_val fit bn k_matrix bands energies Erow ik jk Ek dir = Some 1"
proof -
  obtain i j flag where dp: "direction_points k_matrix ik jk dir = (i, j, flag)"
    by (cases "direction_points k_matrix ik jk dir") auto
  with assms have "i = []" by simp
  then show ?thesis using dp by (simp add: energy_val_def)
qed

text \<open>
  C10. In \<^verbatim>\<open>evaluate_point\<close>, a direction in which all four candidate coordinates lie
  outside the grid contributes the value 1, whatever the energies are, and its entry in
  \<^verbatim>\<open>scores\<close> is 1 (continuity preserved). So a point on the edge of the grid can reach
  the signal 4 with fewer than four directions compared with data: at the corner of a
  2 x 2 grid two directions have no point and the result is \<open>(4, [1, 1, 1, 1])\<close>.
\<close>

theorem evaluate_point_empty_direction:
  assumes run: "evaluate_point fit k bn k_index k_matrix signal bands energies = Some (sig, scs)"
    and idx: "np_get k_index k = Some (ik, jk)"
    and g: "in_grid k_matrix (ik, jk)"
    and d: "d < 4"
    and out: "list_all (\<lambda>t. \<not> in_grid k_matrix
                 (t * fst (directions ! d) + ik, t * snd (directions ! d) + jk)) [1, 2, 3, 4]"
  shows "length scs = 4 \<and> scs ! d = 1
       \<and> (\<forall>Erow Ek. energy_val fit bn k_matrix bands energies Erow ik jk Ek (directions ! d) = Some 1)"
proof -
  have "length directions = 4" by (simp add: directions_def)
  then have din: "directions ! d \<in> set directions" using d by (intro nth_mem) simp
  have ev: "energy_val fit bn k_matrix bands energies Erow ik jk Ek (directions ! d) = Some 1"
    for Erow Ek
    by (rule energy_val_empty[OF direction_points_empty[OF g din out]])
  from run idx obtain Erow Ek vals where
    vals: "those (map (energy_val fit bn k_matrix bands energies Erow ik jk Ek) directions) = Some vals"
    and sc: "scs = map (\<lambda>v. if v > 0.9 then 1 else 0) vals"
    by (auto simp: evaluate_point_def Let_def split: Option.bind_splits if_splits)
  from those_map_Some[OF vals] d
  have len: "length vals = 4"
    and vd: "energy_val fit bn k_matrix bands energies Erow ik jk Ek (directions ! d) = Some (vals ! d)"
    by (simp_all add: directions_def)
  from vd ev have "vals ! d = 1" by simp
  then have "scs ! d = 1" using sc len d by simp
  then show ?thesis using sc len ev by simp
qed

theorem evaluate_point_empty_direction_witness:
  "evaluate_point no_fit 0 0 (make_kpoints_index 2 4) (make_matrix 2 2)
       [[4], [4], [4], [4]] [[0], [0], [0], [0]] [[1], [1], [1], [1]] = Some (4, [1, 1, 1, 1])
   \<and> np_get (make_kpoints_index 2 4) 0 = Some (0, 0)
   \<and> in_grid (make_matrix 2 2) (0, 0)
   \<and> list_all (\<lambda>t. \<not> in_grid (make_matrix 2 2)
                 (t * fst (directions ! 2) + 0, t * snd (directions ! 2) + 0)) [1, 2, 3, 4]
   \<and> length [1, 1, 1, 1 :: int] = 4 \<and> [1, 1, 1, 1 :: int] ! 2 = 1
   \<and> energy_val no_fit 0 (make_matrix 2 2) [[0], [0], [0], [0]] [[1], [1], [1], [1]] [1] 0 0 1
         (directions ! 2) = Some 1"
proof -
  have run: "evaluate_point no_fit 0 0 (make_kpoints_index 2 4) (make_matrix 2 2)
       [[4], [4], [4], [4]] [[0], [0], [0], [0]] [[1], [1], [1], [1]] = Some (4, [1, 1, 1, 1])"
    by code_simp
  have idx: "np_get (make_kpoints_index 2 4) 0 = Some (0, 0)" by code_simp
  have g: "in_grid (make_matrix 2 2) (0, 0)" by code_simp
  have out: "list_all (\<lambda>t. \<not> in_grid (make_matrix 2 2)
                 (t * fst (directions ! 2) + 0, t * snd (directions ! 2) + 0)) [1, 2, 3, 4]"
    by code_simp
  have d: "(2::nat) < 4" by simp
  from evaluate_point_empty_direction[OF run idx g d out]
  show ?thesis using run idx g out by simp
qed

subsection \<open>Double precision: rounding\<close>

lemma pow2_powr: "pow2 e = 2 powr (real_of_int e)"
proof (cases "e \<ge> 0")
  case True
  then have "real_of_int e = real (nat e)" by simp
  then have "2 powr (real_of_int e) = 2 ^ nat e" by (simp only: powr_realpow)
  then show ?thesis using True by (simp add: pow2_def)
next
  case False
  then have "real_of_int e = - real (nat (- e))" by simp
  then have "2 powr (real_of_int e) = 1 / 2 powr (real (nat (- e)))"
    by (simp only: powr_minus_divide)
  also have "\<dots> = 1 / 2 ^ nat (- e)" by (simp only: powr_realpow)
  finally show ?thesis using False by (simp add: pow2_def)
qed



lemma pow2_add: "pow2 (a + b) = pow2 a * pow2 b" by (simp add: pow2_powr powr_add)

lemma pow2_Suc: "pow2 (e + 1) = 2 * pow2 e"
proof -
  have "pow2 1 = 2" by (simp add: pow2_def)
  then show ?thesis using pow2_add[of e 1] by simp
qed

lemma pow2_pred: "pow2 (e - 1) = pow2 e / 2"
  using pow2_Suc[of "e - 1"] by simp




lemma exp_up_bracket:
  "1 \<le> y \<Longrightarrow> y < 2 ^ Suc n \<Longrightarrow> pow2 (exp_up (Suc n) y) \<le> y \<and> y < 2 * pow2 (exp_up (Suc n) y)"
proof (induction n arbitrary: y)
  case 0
  then show ?case by (simp add: pow2_def)
next
  case (Suc n)
  show ?case
  proof (cases "y \<ge> 2")
    case False
    then show ?thesis using Suc.prems by (simp add: pow2_def)
  next
    case True
    then have "1 \<le> y / 2" "y / 2 < 2 ^ Suc n" using Suc.prems by simp_all
    from Suc.IH[OF this] have "pow2 (exp_up (Suc n) (y / 2)) \<le> y / 2"
      "y / 2 < 2 * pow2 (exp_up (Suc n) (y / 2))" by simp_all
    moreover have "exp_up (Suc (Suc n)) y = exp_up (Suc n) (y / 2) + 1"
      using True by simp
    ultimately show ?thesis by (simp add: pow2_Suc)
  qed
qed

lemma exp_down_bracket:
  "1 / 2 ^ n \<le> y \<Longrightarrow> y < 1 \<Longrightarrow> pow2 (exp_down n y) \<le> y \<and> y < 2 * pow2 (exp_down n y)"
proof (induction n arbitrary: y)
  case 0
  then show ?case by simp
next
  case (Suc n)
  show ?case
  proof (cases "2 * y < 1")
    case True
    have "1 / 2 ^ n \<le> 2 * y" using Suc.prems(1) by (simp add: field_simps)
    from Suc.IH[OF this True] have "pow2 (exp_down n (2 * y)) \<le> 2 * y"
      "2 * y < 2 * pow2 (exp_down n (2 * y))" by simp_all
    moreover have "exp_down (Suc n) y = exp_down n (2 * y) - 1" using Suc.prems by simp
    ultimately show ?thesis by (simp add: pow2_pred)
  next
    case False
    then have "exp_down (Suc n) y = exp_down n (2 * y) - 1" using Suc.prems by simp
    moreover have "exp_down n (2 * y) = 0" using False by (cases n) auto
    ultimately have "exp_down (Suc n) y = - 1" by simp
    then show ?thesis using False Suc.prems by (simp add: pow2_def)
  qed
qed

text \<open>The exponent is the binary exponent of x over the whole range of the doubles.\<close>

lemma f64_exponent_bracket:
  assumes "1 / 2 ^ 1100 \<le> \<bar>x\<bar>" "\<bar>x\<bar> < 2 ^ 1100"
  shows "pow2 (f64_exponent x) \<le> \<bar>x\<bar> \<and> \<bar>x\<bar> < 2 * pow2 (f64_exponent x)"
proof (cases "\<bar>x\<bar> \<ge> 1")
  case True
  have "(1100::nat) = Suc 1099" by simp
  then show ?thesis using exp_up_bracket[of "\<bar>x\<bar>" 1099] True assms
    by (simp add: f64_exponent_def del: exp_up.simps)
next
  case False
  then show ?thesis using exp_down_bracket[of 1100 "\<bar>x\<bar>"] assms
    by (simp add: f64_exponent_def)
qed





lemma step_default_round: "f64_round (1 / 10) = step_default"
  by code_simp

text \<open>A step of \<^verbatim>\<open>1e-17\<close> is lost in the rounding: the tolerance stays where it is.\<close>

lemma f64_sub_absorbs: "f64_sub (1 / 2) (f64_round (1 / 10 ^ 17)) = 1 / 2"
  by code_simp

subsection \<open>The outer solver loop: unfolding\<close>

lemma solve_loop_unfold:
  "solve_loop stages cs step min_tol (m, TOL, flag, ms, hist) =
     (if flag \<and> TOL \<ge> min_tol then
        (case solve_body stages cs TOL m ms of
           None \<Rightarrow> Some (hist, None)
         | Some (m', flag', max_solved') \<Rightarrow>
             solve_loop stages cs step min_tol
               (m', f64_sub TOL step, flag', max_solved', hist @ [(TOL, flag', best_score m')]))
      else Some (hist, Some m))"
  by (subst solve_loop.simps) simp

lemma solve_loop_stop:
  "\<not> (flag \<and> TOL \<ge> min_tol) \<Longrightarrow>
     solve_loop stages cs step min_tol (m, TOL, flag, ms, hist) = Some (hist, Some m)"
  by (subst solve_loop.simps) auto

lemma solve_loop_raise:
  "flag \<Longrightarrow> TOL \<ge> min_tol \<Longrightarrow> solve_body stages cs TOL m ms = None \<Longrightarrow>
     solve_loop stages cs step min_tol (m, TOL, flag, ms, hist) = Some (hist, None)"
  by (subst solve_loop.simps) simp

lemma solve_loop_pass:
  "flag \<Longrightarrow> TOL \<ge> min_tol \<Longrightarrow> solve_body stages cs TOL m ms = Some (m', f', ms') \<Longrightarrow>
     solve_loop stages cs step min_tol (m, TOL, flag, ms, hist) =
     solve_loop stages cs step min_tol (m', f64_sub TOL step, f', ms', hist @ [(TOL, f', best_score m')])"
  by (subst solve_loop.simps) simp

lemma solve_loop_fuel_sound:
  "solve_loop_fuel n stages cs step min_tol st = Some y \<Longrightarrow>
     solve_loop stages cs step min_tol st = Some y"
proof (induction n arbitrary: st)
  case 0
  then show ?case by simp
next
  case (Suc n)
  obtain m TOL flag ms hist where st: "st = (m, TOL, flag, ms, hist)" by (cases st) auto
  show ?case
  proof (cases "flag \<and> TOL \<ge> min_tol")
    case False
    with Suc.prems st show ?thesis using solve_loop_stop[OF False] by auto
  next
    case True
    show ?thesis
    proof (cases "solve_body stages cs TOL m ms")
      case None
      with True Suc.prems st show ?thesis using solve_loop_raise[of flag min_tol TOL] by auto
    next
      case (Some res)
      obtain m' f' ms' where res: "res = (m', f', ms')" by (cases res) auto
      from True Some res Suc.prems st
      have "solve_loop_fuel n stages cs step min_tol
              (m', f64_sub TOL step, f', ms', hist @ [(TOL, f', best_score m')]) = Some y"
        by simp
      from Suc.IH[OF this] show ?thesis
        using solve_loop_pass[of flag min_tol TOL stages cs m ms m' f' ms' step hist] True Some res st
        by simp
    qed
  qed
qed

lemma solve_fuel_sound:
  assumes "map_option P (solve_fuel n stages cs step min_tol m) = Some v"
  shows "\<exists>y. solve stages cs step min_tol m = Some y \<and> P y = v"
proof -
  from assms obtain z where
    z: "solve_loop_fuel n stages cs step min_tol (solve_init m, 0.5, True, 0, []) = Some z"
    and v: "P (case z of (hist, r) \<Rightarrow> (hist, Option.bind r solve_finish)) = v"
    by (auto simp: solve_fuel_def)
  from solve_loop_fuel_sound[OF z] v show ?thesis by (simp add: solve_def)
qed

subsection \<open>The outer solver loop: termination\<close>










subsection \<open>The outer solver loop: the best score\<close>











subsection \<open>obtain_output: the band slots\<close>


subsection \<open>obtain_output: coverage of bands_final\<close>

text \<open>
  \<^verbatim>\<open>obtain_output\<close> writes into \<^verbatim>\<open>bands_final\<close> the values \<^const>\<open>node_value\<close> of the nodes of
  the components, and nothing else: with those values in \<open>{-1} \<union> [lo, hi]\<close> the array
  stays there.
\<close>

lemma assign_column_list_all:
  "assign_column A bn kvs = Some A' \<Longrightarrow> list_all (list_all P) A \<Longrightarrow> list_all (\<lambda>kv. P (snd kv)) kvs
     \<Longrightarrow> list_all (list_all P) A'"
proof (induction A bn kvs rule: assign_column.induct)
  case (1 A bn)
  then show ?case by simp
next
  case (2 A bn k v kvs)
  from "2.prems"(1) obtain A1 where a: "np_set2 A k bn v = Some A1"
    and b: "assign_column A1 bn kvs = Some A'"
    by (auto split: Option.bind_splits)
  from np_set2_list_all[OF a "2.prems"(2)] "2.prems"(3) have "list_all (list_all P) A1" by simp
  from "2.IH"[OF a b this] "2.prems"(3) show ?case by simp
qed

lemma frame_refl: "\<exists>B S. (m::material) = m\<lparr>bands_final := B, signal_final := S\<rparr>"
  by (rule exI[of _ "bands_final m"], rule exI[of _ "signal_final m"]) simp

lemma place_component_frame:
  assumes "place_component m c cl bn = Some m'"
  shows "\<exists>B S. m' = m\<lparr>bands_final := B, signal_final := S\<rparr>"
  using assms by (auto simp: place_component_def split: Option.bind_splits)

lemma place_component_coverage:
  assumes pc: "place_component m c cl bn = Some m'"
    and nodes: "list_all (\<lambda>n. node_value m n = - 1 \<or> (lo \<le> node_value m n \<and> node_value m n \<le> hi))
                  (nodes c)"
    and cov: "coverage (bands_final m) lo hi"
  shows "coverage (bands_final m') lo hi"
proof -
  let ?P = "\<lambda>v. v = - 1 \<or> (lo \<le> v \<and> v \<le> hi)"
  from pc obtain B S where
    B: "assign_column (bands_final m) bn
          (zip (k_points m c) (map (\<lambda>b. b + min_band m) (k_bands m c))) = Some B"
    and m': "m' = m\<lparr>bands_final := B, signal_final := S\<rparr>"
    by (auto simp: place_component_def split: Option.bind_splits)
  have "list_all ?P (map (\<lambda>b. b + min_band m) (k_bands m c))"
    using nodes by (simp add: k_bands_def node_value_def list_all_iff)
  then have vals: "list_all (\<lambda>kv. ?P (snd kv))
                     (zip (k_points m c) (map (\<lambda>b. b + min_band m) (k_bands m c)))"
    unfolding list_all_iff by (metis set_zip_rightD prod.collapse)
  from assign_column_list_all[OF B cov[unfolded coverage_def] vals]
  show ?thesis using m' by (simp add: coverage_def)
qed

lemma node_value_frame:
  "node_value (m\<lparr>bands_final := B, signal_final := S\<rparr>) n = node_value m n"
  by (simp add: node_value_def c_nks_def)

lemma solved_loop_coverage:
  assumes "solved_loop m sb cs = Some (sb', m')"
    and "list_all (\<lambda>c. list_all (\<lambda>n. node_value m n = - 1
                          \<or> (lo \<le> node_value m n \<and> node_value m n \<le> hi)) (nodes c)) cs"
    and "coverage (bands_final m) lo hi"
  shows "coverage (bands_final m') lo hi
       \<and> (\<exists>B S. m' = m\<lparr>bands_final := B, signal_final := S\<rparr>)"
  using assms
proof (induction m sb cs arbitrary: sb' m' rule: solved_loop.induct)
  case (1 m sb)
  then have "m' = m" by simp
  then show ?case using "1.prems"(3) frame_refl[of m] by simp
next
  case (2 m sb c cs)
  from "2.prems"(1) obtain bn m1 where
    bn: "pick_solved (min_band m) sb (bands_by_count m c) = Some bn"
    and pc: "place_component m c False bn = Some m1"
    and rest: "solved_loop m1 (sb @ [bn]) cs = Some (sb', m')"
    by (auto split: Option.bind_splits)
  from place_component_frame[OF pc] obtain B S where m1: "m1 = m\<lparr>bands_final := B, signal_final := S\<rparr>"
    by blast
  have c: "list_all (\<lambda>n. node_value m n = - 1 \<or> (lo \<le> node_value m n \<and> node_value m n \<le> hi))
             (nodes c)"
    using "2.prems"(2) by simp
  have cov1: "coverage (bands_final m1) lo hi"
    by (rule place_component_coverage[OF pc c "2.prems"(3)])
  have cs1: "list_all (\<lambda>c. list_all (\<lambda>n. node_value m1 n = - 1
                          \<or> (lo \<le> node_value m1 n \<and> node_value m1 n \<le> hi)) (nodes c)) cs"
    using "2.prems"(2) unfolding m1 node_value_frame by simp
  from "2.IH"[OF bn pc rest cs1 cov1] obtain B' S' where
    "coverage (bands_final m') lo hi"
    and "m' = m1\<lparr>bands_final := B', signal_final := S'\<rparr>" by blast
  then have "coverage (bands_final m') lo hi"
    and "m' = m\<lparr>bands_final := B', signal_final := S'\<rparr>" using m1 by simp_all
  then show ?case by blast
qed

lemma clusters_loop_coverage:
  assumes "clusters_loop m sb cs = Some (sb', m')"
    and "list_all (\<lambda>c. list_all (\<lambda>n. node_value m n = - 1
                          \<or> (lo \<le> node_value m n \<and> node_value m n \<le> hi)) (nodes c)) cs"
    and "coverage (bands_final m) lo hi"
  shows "coverage (bands_final m') lo hi
       \<and> (\<exists>B S. m' = m\<lparr>bands_final := B, signal_final := S\<rparr>)"
  using assms
proof (induction m sb cs arbitrary: sb' m' rule: clusters_loop.induct)
  case (1 m sb)
  then have "m' = m" by simp
  then show ?case using "1.prems"(3) frame_refl[of m] by simp
next
  case (2 m sb c cs)
  from "2.prems"(1) obtain s where
    s: "pick_cluster (min_band m) sb (bands_by_count m c) = Some s"
    by (auto split: Option.bind_splits)
  show ?case
  proof (cases s)
    case Break
    with "2.prems"(1) s have "m' = m" by simp
    then show ?thesis using "2.prems"(3) frame_refl[of m] by simp
  next
    case (Slot bn)
    with "2.prems"(1) s obtain m1 where
      pc: "place_component m c True bn = Some m1"
      and rest: "clusters_loop m1 (sb @ [bn]) cs = Some (sb', m')"
      by (auto split: Option.bind_splits)
    from place_component_frame[OF pc] obtain B S where m1: "m1 = m\<lparr>bands_final := B, signal_final := S\<rparr>"
      by blast
    have c: "list_all (\<lambda>n. node_value m n = - 1 \<or> (lo \<le> node_value m n \<and> node_value m n \<le> hi))
               (nodes c)"
      using "2.prems"(2) by simp
    have cov1: "coverage (bands_final m1) lo hi"
      by (rule place_component_coverage[OF pc c "2.prems"(3)])
    have cs1: "list_all (\<lambda>c. list_all (\<lambda>n. node_value m1 n = - 1
                          \<or> (lo \<le> node_value m1 n \<and> node_value m1 n \<le> hi)) (nodes c)) cs"
      using "2.prems"(2) unfolding m1 node_value_frame by simp
    from "2.IH"[OF s Slot pc rest cs1 cov1] obtain B' S' where
      "coverage (bands_final m') lo hi"
      and "m' = m1\<lparr>bands_final := B', signal_final := S'\<rparr>" by blast
    then have "coverage (bands_final m') lo hi"
      and "m' = m\<lparr>bands_final := B', signal_final := S'\<rparr>" using m1 by simp_all
    then show ?thesis by blast
  qed
qed

lemma clusters_sorted_subset: "set (clusters_sorted m) \<subseteq> set (clusters m)"
  by (auto simp: clusters_sorted_def np_argsort_set)

text \<open>What \<^verbatim>\<open>obtain_output\<close> assigns: four attributes of the object, nothing else.\<close>

lemma obtain_output_frame:
  assumes "obtain_output m = Some m'"
  shows "\<exists>sb1 m1 sb2 m2 S F D.
           solved_loop (m\<lparr>degenerate_final := Some []\<rparr>) [] (solved m) = Some (sb1, m1)
           \<and> clusters_loop m1 sb1 (clusters_sorted m1) = Some (sb2, m2)
           \<and> m' = m2\<lparr>signal_final := S, final_score := F, degenerate_final := D\<rparr>"
  using assms
  by (auto simp: obtain_output_def Let_def split: Option.bind_splits prod.splits)

lemma obtain_output_coverage:
  assumes run: "obtain_output m = Some m'"
    and comps: "list_all (\<lambda>c. list_all (\<lambda>n. node_value m n = - 1
                          \<or> (lo \<le> node_value m n \<and> node_value m n \<le> hi)) (nodes c))
                 (solved m @ clusters m)"
    and cov: "coverage (bands_final m) lo hi"
  shows "coverage (bands_final m') lo hi
       \<and> (\<exists>B S F D. m' = m\<lparr>bands_final := B, signal_final := S, final_score := F,
                             degenerate_final := D\<rparr>)"
proof -
  let ?m0 = "m\<lparr>degenerate_final := Some []\<rparr>"
  let ?ok = "\<lambda>m c. list_all (\<lambda>n. node_value m n = - 1
                          \<or> (lo \<le> node_value m n \<and> node_value m n \<le> hi)) (nodes c)"
  from obtain_output_frame[OF run] obtain sb1 m1 sb2 m2 S F D where
    l1: "solved_loop ?m0 [] (solved m) = Some (sb1, m1)"
    and l2: "clusters_loop m1 sb1 (clusters_sorted m1) = Some (sb2, m2)"
    and m': "m' = m2\<lparr>signal_final := S, final_score := F, degenerate_final := D\<rparr>" by blast
  have nv0: "node_value ?m0 = node_value m" by (rule ext) (simp add: node_value_def c_nks_def)
  have s0: "list_all (?ok ?m0) (solved m)" using comps unfolding nv0 by simp
  have "coverage (bands_final m1) lo hi \<and> (\<exists>B S. m1 = ?m0\<lparr>bands_final := B, signal_final := S\<rparr>)"
    by (rule solved_loop_coverage[OF l1 s0]) (use cov in simp)
  then obtain B1 S1 where cov1: "coverage (bands_final m1) lo hi"
    and m1: "m1 = ?m0\<lparr>bands_final := B1, signal_final := S1\<rparr>" by auto
  have nv1: "node_value m1 = node_value m"
    unfolding m1 by (rule ext) (simp add: node_value_def c_nks_def)
  have "list_all (?ok m) (clusters m)" using comps by simp
  then have "list_all (?ok m) (clusters_sorted m1)"
    using clusters_sorted_subset[of m1] m1 unfolding list_all_iff by auto
  then have c1: "list_all (?ok m1) (clusters_sorted m1)" unfolding nv1 .
  have "coverage (bands_final m2) lo hi \<and> (\<exists>B S. m2 = m1\<lparr>bands_final := B, signal_final := S\<rparr>)"
    by (rule clusters_loop_coverage[OF l2 c1 cov1])
  then obtain B2 S2 where cov2: "coverage (bands_final m2) lo hi"
    and m2: "m2 = m1\<lparr>bands_final := B2, signal_final := S2\<rparr>" by auto
  have "coverage (bands_final m') lo hi" using cov2 m' by simp
  moreover have "m' = m\<lparr>bands_final := B2, signal_final := S, final_score := F,
                             degenerate_final := D\<rparr>"
    unfolding m' m2 m1 by simp
  ultimately show ?thesis by blast
qed

subsection \<open>obtain_output: degenerate points\<close>

text \<open>
  C4, as the claim states it: every row \<open>(kid, b1, b2)\<close> of \<^verbatim>\<open>degenerate_final\<close> has the
  signal 2 at \<open>(kid, b1)\<close> and \<open>(kid, b2)\<close>. In \<^const>\<open>rotation_state\<close> there is no degenerate
  pair, the scan for basis rotations puts the row \<open>(0, 0, 1)\<close> into
  \<^verbatim>\<open>degenerate_final\<close>, and the signals at \<open>(0, 0)\<close> and \<open>(0, 1)\<close> are 3.
\<close>

theorem degenerate_final_signal_counterexample:
  "map_option (\<lambda>m. (degenerate_final m, np_get2 (signal_final m) 0 0, np_get2 (signal_final m) 0 1))
      (obtain_output rotation_state)
     = Some (Some [[0, 0, 1]], Some POTENTIAL_MISTAKE, Some POTENTIAL_MISTAKE)
   \<and> POTENTIAL_MISTAKE \<noteq> DEGENERATE"
  by code_simp

lemma degenerados_loop_keeps:
  "degenerados_loop m S ds = Some S' \<Longrightarrow> np_get2 S k c = Some DEGENERATE
     \<Longrightarrow> np_get2 S' k c = Some DEGENERATE"
proof (induction m S ds rule: degenerados_loop.induct)
  case (1 m S)
  then show ?case by simp
next
  case (2 m S d1 d2 ds)
  from "2.prems"(1) obtain bn1 bn2 S1 S2 where
    b1: "band_column (bands_final m) (np_mod d1 (int (nks m))) (np_div d1 (int (nks m)) + min_band m) = Some bn1"
    and b2: "band_column (bands_final m) (np_mod d2 (int (nks m))) (np_div d2 (int (nks m)) + min_band m) = Some bn2"
    and s1: "np_set2 S (np_mod d1 (int (nks m))) bn1 DEGENERATE = Some S1"
    and s2: "np_set2 S1 (np_mod d2 (int (nks m))) bn2 DEGENERATE = Some S2"
    and rest: "degenerados_loop m S2 ds = Some S'"
    by (auto simp: Let_def split: Option.bind_splits)
  have "np_get2 S2 k c = Some DEGENERATE"
    using np_set2_keeps[OF s2 np_set2_keeps[OF s1 "2.prems"(2)]] .
  from "2.IH"[OF refl refl refl refl b1 b2 s1 s2 rest this] show ?case .
qed

lemma degenerados_loop_marks:
  "degenerados_loop m S ds = Some S' \<Longrightarrow> (d1, d2) \<in> set ds
     \<Longrightarrow> marked m (bands_final m) S' d1 \<and> marked m (bands_final m) S' d2"
proof (induction m S ds rule: degenerados_loop.induct)
  case (1 m S)
  then show ?case by simp
next
  case (2 m S e1 e2 ds)
  from "2.prems"(1) obtain bn1 bn2 S1 S2 where
    b1: "band_column (bands_final m) (np_mod e1 (int (nks m))) (np_div e1 (int (nks m)) + min_band m) = Some bn1"
    and b2: "band_column (bands_final m) (np_mod e2 (int (nks m))) (np_div e2 (int (nks m)) + min_band m) = Some bn2"
    and s1: "np_set2 S (np_mod e1 (int (nks m))) bn1 DEGENERATE = Some S1"
    and s2: "np_set2 S1 (np_mod e2 (int (nks m))) bn2 DEGENERATE = Some S2"
    and rest: "degenerados_loop m S2 ds = Some S'"
    by (auto simp: Let_def split: Option.bind_splits)
  show ?case
  proof (cases "(d1, d2) = (e1, e2)")
    case True
    have "np_get2 S2 (np_mod e1 (int (nks m))) bn1 = Some DEGENERATE"
      by (rule np_set2_keeps[OF s2 np_set2_same[OF s1]])
    then have 1: "np_get2 S' (np_mod e1 (int (nks m))) bn1 = Some DEGENERATE"
      by (rule degenerados_loop_keeps[OF rest])
    have "np_get2 S2 (np_mod e2 (int (nks m))) bn2 = Some DEGENERATE"
      by (rule np_set2_same[OF s2])
    then have 2: "np_get2 S' (np_mod e2 (int (nks m))) bn2 = Some DEGENERATE"
      by (rule degenerados_loop_keeps[OF rest])
    show ?thesis using True 1 2 b1 b2 by (simp add: marked_def)
  next
    case False
    then have "(d1, d2) \<in> set ds" using "2.prems"(2) by auto
    from "2.IH"[OF refl refl refl refl b1 b2 s1 s2 rest this] show ?thesis .
  qed
qed

lemma obtain_output_signal_final:
  assumes "obtain_output m = Some m'"
  shows "\<exists>sb1 m1 sb2 m2 S.
           solved_loop (m\<lparr>degenerate_final := Some []\<rparr>) [] (solved m) = Some (sb1, m1)
           \<and> clusters_loop m1 sb1 (clusters_sorted m1) = Some (sb2, m2)
           \<and> degenerados_loop m2 (signal_final m2) (degenerados m2) = Some S
           \<and> signal_final m' = S \<and> bands_final m' = bands_final m2"
  using assms
  by (auto simp: obtain_output_def Let_def split: Option.bind_splits prod.splits)

lemma solved_loop_frame:
  "solved_loop m sb cs = Some (sb', m') \<Longrightarrow> \<exists>B S. m' = m\<lparr>bands_final := B, signal_final := S\<rparr>"
proof (induction m sb cs arbitrary: sb' m' rule: solved_loop.induct)
  case (1 m sb)
  then show ?case using frame_refl[of m] by simp
next
  case (2 m sb c cs)
  from "2.prems"(1) obtain bn m1 where
    bn: "pick_solved (min_band m) sb (bands_by_count m c) = Some bn"
    and pc: "place_component m c False bn = Some m1"
    and rest: "solved_loop m1 (sb @ [bn]) cs = Some (sb', m')"
    by (auto split: Option.bind_splits)
  from place_component_frame[OF pc] obtain B S where m1: "m1 = m\<lparr>bands_final := B, signal_final := S\<rparr>"
    by blast
  from "2.IH"[OF bn pc rest] obtain B' S' where "m' = m1\<lparr>bands_final := B', signal_final := S'\<rparr>"
    by blast
  then have "m' = m\<lparr>bands_final := B', signal_final := S'\<rparr>" using m1 by simp
  then show ?case by blast
qed

lemma clusters_loop_frame:
  "clusters_loop m sb cs = Some (sb', m') \<Longrightarrow> \<exists>B S. m' = m\<lparr>bands_final := B, signal_final := S\<rparr>"
proof (induction m sb cs arbitrary: sb' m' rule: clusters_loop.induct)
  case (1 m sb)
  then show ?case using frame_refl[of m] by simp
next
  case (2 m sb c cs)
  from "2.prems"(1) obtain s where
    s: "pick_cluster (min_band m) sb (bands_by_count m c) = Some s"
    by (auto split: Option.bind_splits)
  show ?case
  proof (cases s)
    case Break
    with "2.prems"(1) s have "m' = m" by simp
    then show ?thesis using frame_refl[of m] by simp
  next
    case (Slot bn)
    with "2.prems"(1) s obtain m1 where
      pc: "place_component m c True bn = Some m1"
      and rest: "clusters_loop m1 (sb @ [bn]) cs = Some (sb', m')"
      by (auto split: Option.bind_splits)
    from place_component_frame[OF pc] obtain B S where m1: "m1 = m\<lparr>bands_final := B, signal_final := S\<rparr>"
      by blast
    from "2.IH"[OF s Slot pc rest] obtain B' S' where "m' = m1\<lparr>bands_final := B', signal_final := S'\<rparr>"
      by blast
    then have "m' = m\<lparr>bands_final := B', signal_final := S'\<rparr>" using m1 by simp
    then show ?thesis by blast
  qed
qed

lemma degenerate_state_runs: "obtain_output degenerate_state \<noteq> None"
  by code_simp

text \<open>
  C4, amended. The signal 2 marks the degenerate pairs that \<^verbatim>\<open>make_vectors\<close> found
  (\<^verbatim>\<open>self.degenerados\<close>), not the rows of \<^verbatim>\<open>degenerate_final\<close>: after \<^verbatim>\<open>obtain_output\<close>,
  for every pair \<open>(d1, d2)\<close> of \<^verbatim>\<open>degenerados\<close> the signal is 2 at the k-point of each node,
  in the column of \<^verbatim>\<open>bands_final\<close> that holds the band of the node (the band's own column
  when no column holds it).
\<close>

theorem degenerados_signal:
  assumes run: "obtain_output m = Some m'"
    and d: "(d1, d2) \<in> set (degenerados m)"
  shows "marked m (bands_final m') (signal_final m') d1
       \<and> marked m (bands_final m') (signal_final m') d2"
proof -
  from obtain_output_signal_final[OF run] obtain sb1 m1 sb2 m2 S where
    l1: "solved_loop (m\<lparr>degenerate_final := Some []\<rparr>) [] (solved m) = Some (sb1, m1)"
    and l2: "clusters_loop m1 sb1 (clusters_sorted m1) = Some (sb2, m2)"
    and l3: "degenerados_loop m2 (signal_final m2) (degenerados m2) = Some S"
    and sf: "signal_final m' = S" and bf: "bands_final m' = bands_final m2" by blast
  from solved_loop_frame[OF l1] obtain B1 S1 where
    m1: "m1 = m\<lparr>degenerate_final := Some [], bands_final := B1, signal_final := S1\<rparr>" by auto
  from clusters_loop_frame[OF l2] obtain B2 S2 where
    m2: "m2 = m1\<lparr>bands_final := B2, signal_final := S2\<rparr>" by blast
  have deg: "degenerados m2 = degenerados m" and nk: "nks m2 = nks m" and mb: "min_band m2 = min_band m"
    using m1 m2 by simp_all
  from degenerados_loop_marks[OF l3] d deg
  have "marked m2 (bands_final m2) S d1 \<and> marked m2 (bands_final m2) S d2" by simp
  moreover have "marked m2 B S d = marked m B S d" for B S d
    by (simp add: marked_def nk mb cong: option.case_cong)
  ultimately show ?thesis using sf bf by simp
qed

theorem degenerados_signal_witness:
  "(0, 4) \<in> set (degenerados degenerate_state)
   \<and> map_option (\<lambda>m'. np_get (signal_final m') 0) (obtain_output degenerate_state)
        = Some (Some [DEGENERATE, DEGENERATE])
   \<and> (\<exists>m'. obtain_output degenerate_state = Some m'
          \<and> marked degenerate_state (bands_final m') (signal_final m') 0
          \<and> marked degenerate_state (bands_final m') (signal_final m') 4)"
proof -
  obtain m' where run: "obtain_output degenerate_state = Some m'"
    using degenerate_state_runs by blast
  have d: "(0, 4) \<in> set (degenerados degenerate_state)" by code_simp
  have v: "map_option (\<lambda>m'. np_get (signal_final m') 0) (obtain_output degenerate_state)
        = Some (Some [DEGENERATE, DEGENERATE])" by code_simp
  from degenerados_signal[OF run d] show ?thesis using run d v by blast
qed

subsection \<open>The merger: scores and their store\<close>

text \<open>The test of \<^const>\<open>boundary_cell\<close> without the square root, for evaluation.\<close>

lemma sqrt_times_pos:
  fixes x p :: int
  assumes "0 \<le> x"
  shows "(sqrt (real_of_int x) * real_of_int p > 0) = (x > 0 \<and> p > 0)"
proof (cases "x = 0")
  case True
  then show ?thesis by simp
next
  case False
  with assms have "0 < x" by simp
  then have "0 < sqrt (real_of_int x)" by simp
  then show ?thesis using \<open>0 < x\<close> by (simp add: zero_less_mult_iff)
qed

lemma boundary_cell_code [code]:
  "boundary_cell ax ay p = (ax ^ 2 + ay ^ 2 > 0 \<and> p > 0)"
  unfolding boundary_cell_def by (rule sqrt_times_pos) simp

lemma get_cluster_score_modified:
  "was_modified cluster \<Longrightarrow>
   map_option fst (get_cluster_score fit m energies tol sample cluster) = scores sample (cid cluster)"
  by (simp add: get_cluster_score_def split: option.splits)

lemma flag_clear: "\<not> was_modified (c :: component) \<Longrightarrow> c\<lparr>was_modified := False\<rparr> = c"
  by simp

lemma get_cluster_score_unmodified:
  "\<not> was_modified cluster \<Longrightarrow>
   map_option fst (get_cluster_score fit m energies tol sample cluster)
     = compute_score fit m energies tol sample cluster"
  by (cases "compute_score fit m energies tol sample cluster")
     (simp_all add: get_cluster_score_def Let_def flag_clear)

lemma get_cluster_score_sample:
  assumes "get_cluster_score fit m energies tol sample cluster = Some (s, sample', cluster')"
  shows "cid sample' = cid sample \<and> nodes sample' = nodes sample
       \<and> cid cluster' = cid cluster \<and> nodes cluster' = nodes cluster"
  using assms
  by (auto simp: get_cluster_score_def bind_eq_Some_conv Let_def split: if_splits option.splits)

lemma score_clusters_sample:
  assumes "score_clusters fit boundary m energies tol sample cls = Some (row, sample', cls')"
  shows "cid sample' = cid sample \<and> nodes sample' = nodes sample
       \<and> length row = length cls \<and> length cls' = length cls \<and> map nodes cls' = map nodes cls"
  using assms
proof (induction cls arbitrary: sample row sample' cls')
  case Nil
  then show ?case by simp
next
  case (Cons c cs)
  show ?case
  proof (cases "validate m c sample")
    case False
    with Cons.prems obtain ss s1 rest' where
      r: "score_clusters fit boundary m energies tol sample cs = Some (ss, s1, rest')"
      and e: "row = 0 # ss" "sample' = s1" "cls' = c # rest'"
      by (auto simp: bind_eq_Some_conv)
    from Cons.IH[OF r] e show ?thesis by simp
  next
    case True
    let ?s = "if length (k_edges sample) = 0
              then sample\<lparr>k_edges := boundary (nodes sample)\<rparr> else sample"
    from True Cons.prems obtain s sample1 cluster1 ss s2 rest' where
      g: "get_cluster_score fit m energies tol ?s c = Some (s, sample1, cluster1)"
      and r: "score_clusters fit boundary m energies tol sample1 cs = Some (ss, s2, rest')"
      and e: "row = s # ss" "sample' = s2" "cls' = cluster1 # rest'"
      by (auto simp: bind_eq_Some_conv Let_def split: if_splits)
    from get_cluster_score_sample[OF g] Cons.IH[OF r] e show ?thesis
      by (simp split: if_splits)
  qed
qed

lemma score_samples_frame:
  assumes "score_samples fit boundary m energies tol cls ss = Some (evals, ss', cls')"
  shows "length evals = length ss \<and> map cid ss' = map cid ss \<and> map nodes ss' = map nodes ss
       \<and> length cls' = length cls \<and> map nodes cls' = map nodes cls"
  using assms
proof (induction ss arbitrary: cls evals ss' cls')
  case Nil
  then show ?case by simp
next
  case (Cons s rest)
  from Cons.prems obtain row s1 cls1 best arg ev rest' cls2 where
    c: "score_clusters fit boundary m energies tol s cls = Some (row, s1, cls1)"
    and r: "score_samples fit boundary m energies tol cls1 rest = Some (ev, rest', cls2)"
    and e: "evals = (best, arg) # ev" "ss' = s1 # rest'" "cls' = cls2"
    by (auto simp: bind_eq_Some_conv)
  from score_clusters_sample[OF c] Cons.IH[OF r] e show ?case by simp
qed

lemma np_argmax_first_best:
  assumes "np_argmax xs = Some a"
  shows "first_best xs a"
proof -
  from assms have ne: "xs \<noteq> []"
    and f: "List.find (\<lambda>i. xs ! i = Max (set xs)) [0..<length xs] = Some a"
    by (auto simp: np_argmax_def split: if_splits)
  from f obtain i where i: "i < length [0..<length xs]"
    and p: "xs ! ([0..<length xs] ! i) = Max (set xs)"
    and a: "a = [0..<length xs] ! i"
    and least: "\<forall>j<i. xs ! ([0..<length xs] ! j) \<noteq> Max (set xs)"
    unfolding find_Some_iff by blast
  from i have il: "i < length xs" by simp
  then have nth: "[0..<length xs] ! i = i" by simp
  from a nth il have ai: "a = i" and al: "a < length xs" by simp_all
  from p nth ai have pa: "xs ! a = Max (set xs)" by simp
  have le: "xs ! j \<le> xs ! a" if "j < length xs" for j
    using that pa by simp
  have lt: "xs ! j < xs ! a" if "j < a" for j
  proof -
    from that al have jl: "j < length xs" by simp
    from that ai have "j < i" by simp
    with least have "xs ! ([0..<length xs] ! j) \<noteq> Max (set xs)" by blast
    with jl have "xs ! j \<noteq> Max (set xs)" by simp
    with le[OF jl] pa show ?thesis by simp
  qed
  show ?thesis using al le lt by (simp add: first_best_def list_all_iff)
qed

lemma np_argmax_total: "xs \<noteq> [] \<Longrightarrow> \<exists>a. np_argmax xs = Some a"
proof -
  assume ne: "xs \<noteq> []"
  then have "Max (set xs) \<in> set xs" by simp
  then obtain i where "i < length xs" "xs ! i = Max (set xs)"
    by (auto simp: in_set_conv_nth)
  then have "\<exists>i\<in>set [0..<length xs]. xs ! i = Max (set xs)" by auto
  then have "List.find (\<lambda>i. xs ! i = Max (set xs)) [0..<length xs] \<noteq> None"
    unfolding find_None_iff by blast
  with ne show ?thesis by (auto simp: np_argmax_def)
qed

lemma join_nodes: "set (nodes sample) \<subseteq> set (nodes (join boundary cluster sample))"
  by (auto simp: join_def Let_def)

lemma merge_round_cases:
  assumes run: "merge_round fit boundary m energies tol st = Some (st', a)"
  obtains evals ss cs joined where
    "score_samples fit boundary m energies tol (m_clusters st) (samples st) = Some (evals, ss, cs)"
    "np_argmax (map fst evals) = Some a"
    "samples st' = take a ss @ drop (Suc a) ss"
    "snd (evals ! a) < length cs"
    "joined = (join boundary (map (\<lambda>c. c\<lparr>was_modified := False\<rparr>) cs ! snd (evals ! a)) (ss ! a))
                \<lparr>was_modified := True\<rparr>"
    "joined \<in> set (m_clusters st') \<union> set (m_solved st')"
proof -
  from run obtain evals ss cs where
    sc: "score_samples fit boundary m energies tol (m_clusters st) (samples st) = Some (evals, ss, cs)"
    and am: "np_argmax (map fst evals) = Some a"
    and rest: "(let cls = map (\<lambda>c. c\<lparr>was_modified := False\<rparr>) cs;
            sample = ss ! a;
            samples' = take a ss @ drop (Suc a) ss;
            bn = snd (evals ! a) in
       if bn \<ge> length cls then None
       else
         let joined = (join boundary (cls ! bn) sample)\<lparr>was_modified := True\<rparr>;
             cls' = cls[bn := joined]
         in if N joined = nks m
            then Some (\<lparr>samples = samples',
                         m_clusters = take bn cls' @ drop (Suc bn) cls',
                         m_solved = m_solved st @ [joined]\<rparr>, a)
            else Some (\<lparr>samples = samples', m_clusters = cls', m_solved = m_solved st\<rparr>, a))
       = Some (st', a)"
    by (auto simp: merge_round_def bind_eq_Some_conv Let_def split: if_splits)
  let ?cls = "map (\<lambda>c. c\<lparr>was_modified := False\<rparr>) cs"
  let ?bn = "snd (evals ! a)"
  let ?j = "(join boundary (?cls ! ?bn) (ss ! a))\<lparr>was_modified := True\<rparr>"
  from rest have bn: "?bn < length cs" by (auto simp: Let_def split: if_splits)
  from rest bn have s: "samples st' = take a ss @ drop (Suc a) ss"
    by (auto simp: Let_def split: if_splits)
  have "?j \<in> set (m_clusters st') \<union> set (m_solved st')"
  proof (cases "N ?j = nks m")
    case True
    with rest bn have "m_solved st' = m_solved st @ [?j]" by (auto simp: Let_def)
    then show ?thesis by simp
  next
    case False
    with rest bn have "m_clusters st' = ?cls[?bn := ?j]" by (auto simp: Let_def)
    moreover have "?j \<in> set (?cls[?bn := ?j])" using bn by (simp add: set_update_memI)
    ultimately show ?thesis by simp
  qed
  with sc am s bn show ?thesis using that by blast
qed

text \<open>
  The state \<^const>\<open>merger_state\<close>: its energies, and the whole merger on it. The cluster
  \<open>{0, 1, 2}\<close> takes the sample \<open>{4, 5}\<close> in the first pass and the sample \<open>{3}\<close> in the
  second, and is solved.
\<close>

lemma merger_components_run:
  "map_option (\<lambda>st. (map nodes (samples st), map nodes (m_clusters st), map nodes (m_solved st)))
     (get_components no_fit (calc_boundary merger_state) merger_state merger_energies (1 / 2)
        merger_components) = Some ([], [], [[0, 1, 2, 4, 5, 3]])"
  by code_simp

lemma merger_energies_eq: "make_BandsEnergy merger_state = Some merger_energies"
  by code_simp

lemma merger_start_round:
  "(case merge_round no_fit (calc_boundary merger_state) merger_state merger_energies (1 / 2)
           merger_start of
      None \<Rightarrow> False | Some (st, a) \<Rightarrow> a = 0)"
  by code_simp

text \<open>
  C1. A stored score is to be used again only while the cluster has not changed. The
  test at line 1198 is the other way round: the store is read when
  \<^verbatim>\<open>cluster.was_modified\<close> is set, and the score is computed when it is not (the two
  lemmas above on \<^const>\<open>get_cluster_score\<close>). In \<^const>\<open>merger_state\<close> the first pass of the
  loop stores the score 7/40 of the sample \<open>{3}\<close> against the cluster \<open>{0, 1, 2}\<close>, then
  joins the sample \<open>{4, 5}\<close> to that cluster and sets its flag. In the second pass the
  cluster is \<open>{0, 1, 2, 4, 5}\<close> with the boundary \<open>{0, 1, 4}\<close>; the sample \<open>{3}\<close> now touches
  it at the k-points 0 and 4 and its score, computed, is 7/20, but
  \<^verbatim>\<open>get_cluster_score\<close> returns the stored 7/40.
\<close>

theorem get_cluster_score_returns_stale_score:
  "(case merge_round no_fit (calc_boundary merger_state) merger_state merger_energies (1 / 2)
           merger_start of
      None \<Rightarrow> False
    | Some (st, a) \<Rightarrow>
        (let sample = samples st ! 0; cluster = m_clusters st ! 0 in
           nodes sample = [3] \<and> nodes cluster = [0, 1, 2, 4, 5] \<and> was_modified cluster
         \<and> scores sample (cid cluster) = Some (7 / 40)
         \<and> map_option fst (get_cluster_score no_fit merger_state merger_energies (1 / 2)
                              sample cluster) = Some (7 / 40)
         \<and> compute_score no_fit merger_state merger_energies (1 / 2) sample cluster
             = Some (7 / 20)))"
  by code_simp

subsection \<open>The merger: which sample is taken\<close>

text \<open>
  C8, as the claim states it: among the samples with the highest best score the one
  with the lowest identifier is taken. In \<^const>\<open>merger_state\<close> the samples are
  \<open>{4, 5}\<close> and \<open>{3}\<close>, in that order (the larger component first), with the identifiers
  4 and 3; both have the best score 7/40. The loop takes the one at position 0,
  identifier 4, and leaves the sample with identifier 3.
\<close>

theorem merge_round_tie_counterexample:
  "map cid (samples merger_start) = [4, 3]
   \<and> map_option (\<lambda>(evals, ss, cs). map fst evals)
       (score_samples no_fit (calc_boundary merger_state) merger_state merger_energies (1 / 2)
          (m_clusters merger_start) (samples merger_start)) = Some [7 / 40, 7 / 40]
   \<and> map_option (\<lambda>(st, a). (a, map cid (samples st)))
       (merge_round no_fit (calc_boundary merger_state) merger_state merger_energies (1 / 2)
          merger_start) = Some (0, [3])"
  by code_simp

text \<open>
  C8, amended: a pass of the loop takes the sample at the first position of the list
  \<^verbatim>\<open>samples\<close> that holds the highest best score (\<^verbatim>\<open>np.argmax\<close> of the first column of
  \<^verbatim>\<open>evaluate_samples\<close>): no sample scores higher, every sample before it scores lower.
  That sample leaves the list, the others stay in their order, and its nodes are in a
  cluster or a solved component afterwards.
\<close>

theorem merge_round_selection:
  assumes run: "merge_round fit boundary m energies tol st = Some (st', a)"
  shows "\<exists>evals ss cs.
           score_samples fit boundary m energies tol (m_clusters st) (samples st) = Some (evals, ss, cs)
         \<and> length evals = length (samples st)
         \<and> first_best (map fst evals) a
         \<and> map cid (samples st') = map cid (take a (samples st) @ drop (Suc a) (samples st))
         \<and> map nodes (samples st') = map nodes (take a (samples st) @ drop (Suc a) (samples st))
         \<and> (\<exists>c. c \<in> set (m_clusters st') \<union> set (m_solved st')
                \<and> set (nodes (samples st ! a)) \<subseteq> set (nodes c))"
proof -
  from run obtain evals ss cs joined where
    sc: "score_samples fit boundary m energies tol (m_clusters st) (samples st) = Some (evals, ss, cs)"
    and am: "np_argmax (map fst evals) = Some a"
    and st': "samples st' = take a ss @ drop (Suc a) ss"
    and j: "joined = (join boundary (map (\<lambda>c. c\<lparr>was_modified := False\<rparr>) cs ! snd (evals ! a)) (ss ! a))
                \<lparr>was_modified := True\<rparr>"
    and jin: "joined \<in> set (m_clusters st') \<union> set (m_solved st')"
    by (rule merge_round_cases)
  from score_samples_frame[OF sc] have len: "length evals = length (samples st)"
    and ids: "map cid ss = map cid (samples st)" and ns: "map nodes ss = map nodes (samples st)"
    by simp_all
  have c: "map cid (samples st') = map cid (take a (samples st) @ drop (Suc a) (samples st))"
    using st' ids by (simp add: take_map[symmetric] drop_map[symmetric])
  have n: "map nodes (samples st') = map nodes (take a (samples st) @ drop (Suc a) (samples st))"
    using st' ns by (simp add: take_map[symmetric] drop_map[symmetric])
  have fb: "first_best (map fst evals) a" by (rule np_argmax_first_best[OF am])
  then have al: "a < length (samples st)" using len by (simp add: first_best_def)
  from ns have ll: "length ss = length (samples st)" by (metis length_map)
  from ns al ll have "nodes (ss ! a) = nodes (samples st ! a)"
    by (metis nth_map)
  then have "set (nodes (samples st ! a)) \<subseteq> set (nodes joined)"
    using join_nodes[of "ss ! a" boundary] j by simp
  with jin have "\<exists>c. c \<in> set (m_clusters st') \<union> set (m_solved st')
                \<and> set (nodes (samples st ! a)) \<subseteq> set (nodes c)" by blast
  with sc len fb c n show ?thesis by blast
qed

theorem merge_round_selection_witness:
  "\<exists>st' evals ss cs.
     merge_round no_fit (calc_boundary merger_state) merger_state merger_energies (1 / 2)
       merger_start = Some (st', 0)
   \<and> score_samples no_fit (calc_boundary merger_state) merger_state merger_energies (1 / 2)
       (m_clusters merger_start) (samples merger_start) = Some (evals, ss, cs)
   \<and> first_best (map fst evals) 0
   \<and> map cid (samples st') = [3]
   \<and> (\<exists>c. c \<in> set (m_clusters st') \<union> set (m_solved st')
          \<and> set (nodes (samples merger_start ! 0)) \<subseteq> set (nodes c))"
proof -
  obtain st' where run: "merge_round no_fit (calc_boundary merger_state) merger_state
      merger_energies (1 / 2) merger_start = Some (st', 0)"
    using merger_start_round
    by (cases "merge_round no_fit (calc_boundary merger_state) merger_state
      merger_energies (1 / 2) merger_start") auto
  have r: "map cid (take 0 (samples merger_start) @ drop (Suc 0) (samples merger_start)) = [3]"
    by code_simp
  from merge_round_selection[OF run] r run show ?thesis by auto
qed

subsection \<open>The merger keeps the nodes\<close>

lemma nodes_of_Nil: "nodes_of [] = {}"
  by (simp add: nodes_of_def)

lemma nodes_of_append: "nodes_of (xs @ ys) = nodes_of xs \<union> nodes_of ys"
  by (auto simp: nodes_of_def)

lemma nodes_of_single: "nodes_of [c] = set (nodes c)"
  by (simp add: nodes_of_def)

lemma nodes_of_subset: "set xs \<subseteq> set ys \<Longrightarrow> nodes_of xs \<subseteq> nodes_of ys"
  by (auto simp: nodes_of_def)

lemma nodes_of_concat: "nodes_of xs = set (concat (map nodes xs))"
  by (auto simp: nodes_of_def)

lemma nodes_of_map_eq: "map nodes xs = map nodes ys \<Longrightarrow> nodes_of xs = nodes_of ys"
  by (simp add: nodes_of_concat)

lemma nodes_of_nth: "a < length xs \<Longrightarrow> set (nodes (xs ! a)) \<subseteq> nodes_of xs"
  unfolding nodes_of_def using nth_mem[of a xs] by blast

lemma nodes_of_update: "nodes_of (xs[i := c]) \<subseteq> nodes_of xs \<union> set (nodes c)"
proof -
  have "set (xs[i := c]) \<subseteq> insert c (set xs)" by (rule set_update_subset_insert)
  then show ?thesis unfolding nodes_of_def by blast
qed

lemma nodes_of_take_drop: "nodes_of (take a xs @ drop b xs) \<subseteq> nodes_of xs"
proof -
  have "set (take a xs @ drop b xs) \<subseteq> set xs"
    using set_take_subset[of a xs] set_drop_subset[of b xs] by auto
  then show ?thesis by (rule nodes_of_subset)
qed

lemma join_nodes_set:
  "set (nodes (join boundary cluster sample)) = set (nodes cluster) \<union> set (nodes sample)"
  by (auto simp: join_def Let_def)

lemma merge_round_nodes:
  assumes run: "merge_round fit boundary m energies tol st = Some (st', a)"
  shows "nodes_of (samples st') \<union> nodes_of (m_clusters st') \<union> nodes_of (m_solved st')
           \<subseteq> nodes_of (samples st) \<union> nodes_of (m_clusters st) \<union> nodes_of (m_solved st)"
proof -
  from run obtain evals ss cs where
    sc: "score_samples fit boundary m energies tol (m_clusters st) (samples st) = Some (evals, ss, cs)"
    and am: "np_argmax (map fst evals) = Some a"
    and rest: "(let cls = map (\<lambda>c. c\<lparr>was_modified := False\<rparr>) cs;
            sample = ss ! a;
            samples' = take a ss @ drop (Suc a) ss;
            bn = snd (evals ! a) in
       if bn \<ge> length cls then None
       else
         let joined = (join boundary (cls ! bn) sample)\<lparr>was_modified := True\<rparr>;
             cls' = cls[bn := joined]
         in if N joined = nks m
            then Some (\<lparr>samples = samples',
                         m_clusters = take bn cls' @ drop (Suc bn) cls',
                         m_solved = m_solved st @ [joined]\<rparr>, a)
            else Some (\<lparr>samples = samples', m_clusters = cls', m_solved = m_solved st\<rparr>, a))
       = Some (st', a)"
    by (auto simp: merge_round_def bind_eq_Some_conv Let_def split: if_splits)
  let ?cls = "map (\<lambda>c. c\<lparr>was_modified := False\<rparr>) cs"
  let ?bn = "snd (evals ! a)"
  let ?j = "(join boundary (?cls ! ?bn) (ss ! a))\<lparr>was_modified := True\<rparr>"
  let ?cls' = "?cls[?bn := ?j]"
  let ?old = "nodes_of (samples st) \<union> nodes_of (m_clusters st) \<union> nodes_of (m_solved st)"
  from score_samples_frame[OF sc] have len: "length evals = length (samples st)"
    and ns: "map nodes ss = map nodes (samples st)"
    and nc: "map nodes cs = map nodes (m_clusters st)" by simp_all
  from ns have lss: "length ss = length (samples st)" by (metis length_map)
  have a: "a < length ss"
  proof -
    from am have "map fst evals \<noteq> []" by (auto simp: np_argmax_def split: if_splits)
    with am have "List.find (\<lambda>i. map fst evals ! i = Max (set (map fst evals)))
                    [0..<length (map fst evals)] = Some a"
      by (simp add: np_argmax_def)
    then have "a \<in> set [0..<length (map fst evals)]"
      unfolding find_Some_iff by (metis nth_mem)
    then show ?thesis using len lss by simp
  qed
  from rest have bn: "?bn < length cs" by (auto simp: Let_def split: if_splits)
  have S: "samples st' = take a ss @ drop (Suc a) ss"
    using rest bn by (auto simp: Let_def split: if_splits)
  have "map nodes ?cls = map nodes cs" by (rule nth_equalityI) simp_all
  then have ncls: "nodes_of ?cls = nodes_of (m_clusters st)"
    using nc nodes_of_map_eq by metis
  have nss: "nodes_of ss = nodes_of (samples st)" by (rule nodes_of_map_eq[OF ns])
  have jn: "set (nodes ?j) \<subseteq> ?old"
  proof -
    have "set (nodes (?cls ! ?bn)) \<subseteq> nodes_of ?cls"
      by (rule nodes_of_nth) (use bn in simp)
    moreover have "set (nodes (ss ! a)) \<subseteq> nodes_of ss"
      by (rule nodes_of_nth[OF a])
    moreover have "set (nodes ?j) = set (nodes (?cls ! ?bn)) \<union> set (nodes (ss ! a))"
      by (simp add: join_nodes_set)
    ultimately show ?thesis unfolding ncls nss by blast
  qed
  have cls'n: "nodes_of ?cls' \<subseteq> ?old"
    using nodes_of_update[of ?cls ?bn ?j] jn unfolding ncls by blast
  have sn: "nodes_of (samples st') \<subseteq> ?old"
    unfolding S using nodes_of_take_drop[of a ss "Suc a"] unfolding nss by blast
  have cn: "nodes_of (m_clusters st') \<subseteq> ?old \<and> nodes_of (m_solved st') \<subseteq> ?old"
  proof (cases "N ?j = nks m")
    case True
    with rest bn have c: "m_clusters st' = take ?bn ?cls' @ drop (Suc ?bn) ?cls'"
      and s: "m_solved st' = m_solved st @ [?j]" by (auto simp: Let_def)
    have "nodes_of (m_clusters st') \<subseteq> ?old"
      unfolding c using nodes_of_take_drop[of ?bn ?cls' "Suc ?bn"] cls'n by blast
    moreover have "nodes_of (m_solved st') \<subseteq> ?old"
      unfolding s nodes_of_append nodes_of_single using jn by blast
    ultimately show ?thesis by simp
  next
    case False
    with rest bn have c: "m_clusters st' = ?cls'" and s: "m_solved st' = m_solved st"
      by (auto simp: Let_def)
    show ?thesis unfolding c s using cls'n by blast
  qed
  show ?thesis using sn cn by blast
qed

lemma merge_loop_nodes:
  assumes "merge_loop fit boundary m energies tol n st = Some st'"
  shows "nodes_of (samples st') \<union> nodes_of (m_clusters st') \<union> nodes_of (m_solved st')
           \<subseteq> nodes_of (samples st) \<union> nodes_of (m_clusters st) \<union> nodes_of (m_solved st)"
  using assms
proof (induction n arbitrary: st)
  case 0
  then show ?case by simp
next
  case (Suc n)
  show ?case
  proof (cases "length (samples st) > 0")
    case False
    with Suc.prems show ?thesis by simp
  next
    case True
    with Suc.prems obtain st1 a where
      r: "merge_round fit boundary m energies tol st = Some (st1, a)"
      and l: "merge_loop fit boundary m energies tol n st1 = Some st'"
      by (auto simp: bind_eq_Some_conv)
    from merge_round_nodes[OF r] Suc.IH[OF l] show ?thesis by blast
  qed
qed

lemma classify_nodes:
  "nodes_of (samples (classify boundary m st cs)) \<union> nodes_of (m_clusters (classify boundary m st cs))
     \<union> nodes_of (m_solved (classify boundary m st cs))
     \<subseteq> nodes_of (samples st) \<union> nodes_of (m_clusters st) \<union> nodes_of (m_solved st) \<union> nodes_of cs"
proof (induction cs arbitrary: st)
  case Nil
  then show ?case by simp
next
  case (Cons c cs)
  let ?c = "c\<lparr>k_edges := boundary (nodes c)\<rparr>"
  have cons: "nodes_of (c # cs) = set (nodes c) \<union> nodes_of cs" by (simp add: nodes_of_def)
  have s: "?case" if "classify boundary m st (c # cs) = classify boundary m st1 cs"
    and "nodes_of (samples st1) \<union> nodes_of (m_clusters st1) \<union> nodes_of (m_solved st1)
           \<subseteq> nodes_of (samples st) \<union> nodes_of (m_clusters st) \<union> nodes_of (m_solved st)
               \<union> set (nodes c)"
    for st1
    unfolding that(1) cons using Cons.IH[of st1] that(2) by blast
  show ?case
  proof (cases "N c = nks m")
    case True
    show ?thesis
      by (rule s[of "st\<lparr>m_solved := m_solved st @ [c]\<rparr>"])
         (use True in \<open>auto simp: nodes_of_append nodes_of_single\<close>)
  next
    case False
    show ?thesis
    proof (cases "length (m_clusters st) = 0 \<or> \<not> list_ex (\<lambda>cluster. validate m cluster ?c) (m_clusters st)")
      case True
      show ?thesis
        by (rule s[of "st\<lparr>m_clusters := m_clusters st @ [?c]\<rparr>"])
           (use False True in \<open>auto simp: Let_def nodes_of_append nodes_of_single\<close>)
    next
      case k: False
      show ?thesis
        by (rule s[of "st\<lparr>samples := samples st @ [?c]\<rparr>"])
           (use False k in \<open>auto simp: Let_def nodes_of_append nodes_of_single\<close>)
    qed
  qed
qed

lemma get_components_nodes:
  assumes "get_components fit boundary m energies tol components = Some st"
  shows "nodes_of (samples st) \<union> nodes_of (m_clusters st) \<union> nodes_of (m_solved st)
           \<subseteq> nodes_of components"
proof -
  let ?sorted = "map (\<lambda>i. components ! i) (rev (np_argsort (map N components)))"
  let ?st0 = "classify boundary m \<lparr>samples = [], m_clusters = [], m_solved = []\<rparr> ?sorted"
  from assms have l: "merge_loop fit boundary m energies tol (length (samples ?st0)) ?st0 = Some st"
    by (simp add: get_components_def Let_def)
  have "set ?sorted \<subseteq> set components"
    by (auto simp: np_argsort_set)
  then have s: "nodes_of ?sorted \<subseteq> nodes_of components" by (rule nodes_of_subset)
  from classify_nodes[of boundary m "\<lparr>samples = [], m_clusters = [], m_solved = []\<rparr>" ?sorted]
  have "nodes_of (samples ?st0) \<union> nodes_of (m_clusters ?st0) \<union> nodes_of (m_solved ?st0)
          \<subseteq> nodes_of ?sorted" by (simp add: nodes_of_Nil)
  with merge_loop_nodes[OF l] s show ?thesis by blast
qed

subsection \<open>get_components on the object\<close>

lemma node_in_window:
  assumes wf: "well_formed m" and n: "0 \<le> n" "n < int (nks m) * int (nbnd m)"
  shows "min_band m \<le> node_value m n \<and> node_value m n \<le> max_band m"
proof -
  from wf have c: "c_nks m = int (nks m)"
    and mx: "max_band m = min_band m + int (nbnd m) - 1"
    by (simp_all add: well_formed_def c_nks_def)
  from wf have "0 < nks m" unfolding well_formed_def by blast
  then have pos: "0 < int (nks m)" by simp
  have lo: "0 \<le> n div int (nks m)" using n(1) pos by (simp add: pos_imp_zdiv_nonneg_iff)
  have hi: "n div int (nks m) < int (nbnd m)"
  proof (rule ccontr)
    assume "\<not> n div int (nks m) < int (nbnd m)"
    then have "int (nbnd m) * int (nks m) \<le> (n div int (nks m)) * int (nks m)"
      using pos by (intro mult_right_mono) simp_all
    also have "\<dots> \<le> n" using pos
      by (metis add.commute le_add_same_cancel2 mod_mult_div_eq mult.commute pos_mod_sign)
    finally show False using n(2) by (simp add: mult.commute)
  qed
  show ?thesis using lo hi pos c mx by (simp add: node_value_def np_div_def)
qed

lemma get_components_run_ok:
  assumes run: "get_components_run fit cc tol m = Some m'"
    and cc: "cc_contract cc" and wf: "well_formed m" and g: "graph_ok m"
  shows "(\<exists>cs ks. m' = m\<lparr>solved := cs, clusters := ks\<rparr>) \<and> components_ok m'"
proof -
  from run obtain energies st where
    gc: "get_components fit (calc_boundary m) m energies tol (map comp (cc (GRAPH m))) = Some st"
    and lab: "list_all (labels_ok m) (m_solved st @ m_clusters st)"
    and m': "m' = m\<lparr>solved := m_solved st, clusters := m_clusters st\<rparr>"
    by (auto simp: get_components_run_def bind_eq_Some_conv split: if_splits)
  have nv: "node_value m' = node_value m" unfolding m'
    by (rule ext) (simp add: node_value_def c_nks_def)
  have cv: "covered m' = covered m" unfolding m' by (rule ext) (simp add: covered_def)
  have "nodes_of (map comp (cc (GRAPH m))) \<subseteq> set (g_nodes (GRAPH m))"
    using cc by (auto simp: nodes_of_def comp_def cc_contract_def list_all_iff)
  with get_components_nodes[OF gc]
  have sub: "nodes_of (m_solved st) \<union> nodes_of (m_clusters st) \<subseteq> set (g_nodes (GRAPH m))"
    by blast
  have "covered m (node_value m n)" if c: "c \<in> set (m_solved st @ m_clusters st)"
    and n: "n \<in> set (nodes c)" for c n
  proof -
    from c n sub have "n \<in> set (g_nodes (GRAPH m))" by (auto simp: nodes_of_def)
    with g have gn: "0 \<le> n \<or> node_value m n = - 1" by (simp add: graph_ok_def list_all_iff)
    from lab c n have up: "n < int (nks m) * int (nbnd m)"
      by (auto simp: labels_ok_def list_all_iff)
    show ?thesis
    proof (cases "0 \<le> n")
      case True
      from node_in_window[OF wf True up] show ?thesis by (simp add: covered_def)
    next
      case False
      with gn show ?thesis by (simp add: covered_def)
    qed
  qed
  then have "components_ok m'"
    unfolding components_ok_def nv cv unfolding m' by (simp add: list_all_iff)
  with m' show ?thesis by blast
qed

subsection \<open>correct_signal: the nodes of the new graph\<close>

lemma those_list_all:
  "those xs = Some ys \<Longrightarrow> list_all (\<lambda>x. \<forall>y. x = Some y \<longrightarrow> P y) xs \<Longrightarrow> list_all P ys"
proof (induction xs arbitrary: ys)
  case Nil
  then show ?case by simp
next
  case (Cons x xs)
  then show ?case by (auto split: option.splits)
qed

lemma list_all_optI:
  "(\<And>x y. x \<in> set xs \<Longrightarrow> x = Some y \<Longrightarrow> P y) \<Longrightarrow> list_all (\<lambda>x. \<forall>y. x = Some y \<longrightarrow> P y) xs"
  unfolding list_all_iff by blast

lemma np_get2_list_all: "np_get2 A i j = Some x \<Longrightarrow> list_all (list_all P) A \<Longrightarrow> P x"
proof -
  assume a: "np_get2 A i j = Some x" and b: "list_all (list_all P) A"
  from a obtain row where r: "np_get A i = Some row" and x: "np_get row j = Some x"
    by (auto simp: np_get2_def bind_eq_Some_conv)
  from np_get_list_all[OF r b] have "list_all P row" .
  from np_get_list_all[OF x this] show "P x" .
qed

lemma make_matrix_range:
  "list_all (list_all (\<lambda>k. 0 \<le> k \<and> k < int nx * int ny)) (make_matrix nx ny)"
proof -
  have "int j * int nx + int i < int nx * int ny" if "i < nx" "j < ny" for i j
  proof -
    from that have "int j + 1 \<le> int ny" by simp
    then have "(int j + 1) * int nx \<le> int ny * int nx" by (rule mult_right_mono) simp
    moreover have "int j * int nx + int i < (int j + 1) * int nx"
      using that by (simp add: algebra_simps)
    ultimately show ?thesis by (simp add: mult.commute)
  qed
  then show ?thesis by (simp add: make_matrix_def list_all_iff)
qed

lemma matrix_entry:
  assumes "np_get2 (make_matrix (nkx m) (nky m)) i j = Some kp" and "well_formed m"
  shows "0 \<le> kp \<and> kp < int (nks m)"
proof -
  from np_get2_list_all[OF assms(1) make_matrix_range] assms(2) show ?thesis
    by (simp add: well_formed_def)
qed

lemma edge_node_ok:
  assumes e: "edge_node m kp bn = Some p"
    and wf: "well_formed m"
    and cov: "coverage (bands_final m) (min_band m) (max_band m)"
    and kp: "0 \<le> kp" "kp < int (nks m)"
  shows "0 \<le> p \<or> node_value m p = - 1"
proof -
  from e obtain v where v: "np_get2 (bands_final m) kp bn = Some v"
    and p: "p = kp + (v - min_band m) * int (nks m)"
    by (auto simp: edge_node_def bind_eq_Some_conv)
  from np_get2_list_all[OF v cov[unfolded coverage_def]]
  have cv: "v = - 1 \<or> (min_band m \<le> v \<and> v \<le> max_band m)" .
  from wf have c: "c_nks m = int (nks m)" by (simp add: well_formed_def c_nks_def)
  from wf have "0 < nks m" unfolding well_formed_def by blast
  then have pos: "0 < int (nks m)" by simp
  show ?thesis
  proof (cases "v = - 1")
    case True
    have "p div int (nks m) = (- 1 - min_band m)"
    proof -
      have "p = kp + (- 1 - min_band m) * int (nks m)" using p True by simp
      then have "p div int (nks m) = kp div int (nks m) + (- 1 - min_band m)"
        using pos by simp
      moreover have "kp div int (nks m) = 0" using kp by simp
      ultimately show ?thesis by simp
    qed
    then show ?thesis using pos c by (simp add: node_value_def np_div_def)
  next
    case False
    with cv have "0 \<le> v - min_band m" by simp
    then have "0 \<le> (v - min_band m) * int (nks m)" using pos by simp
    then show ?thesis using p kp by simp
  qed
qed

lemma cell_edges_ok:
  assumes ce: "cell_edges m deg bn ident ik jk = Some es"
    and wf: "well_formed m"
    and cov: "coverage (bands_final m) (min_band m) (max_band m)"
  shows "list_all (\<lambda>(p, pn). (0 \<le> p \<or> node_value m p = - 1) \<and> (0 \<le> pn \<or> node_value m pn = - 1)) es"
proof -
  let ?M = "make_matrix (nkx m) (nky m)"
  let ?ok = "\<lambda>(p, pn). (0 \<le> p \<or> node_value m p = - 1) \<and> (0 \<le> pn \<or> node_value m pn = - 1)"
  from ce obtain kp need where kp: "np_get2 ?M ik jk = Some kp"
    and rest: "(if need \<and> kp \<notin> set deg then Some []
        else
          map_option concat (those (map (\<lambda>(di, dj).
            let ikn = ik + di; jkn = jk + dj in
            if ikn \<ge> shape0 ?M \<or> jkn \<ge> shape1 ?M then Some []
            else do {
              kneig \<leftarrow> np_get2 ?M ikn jkn;
              idn \<leftarrow> np_get2 ident ikn jkn;
              if \<not> idn then do {
                p \<leftarrow> edge_node m kp bn;
                pn \<leftarrow> edge_node m kneig bn;
                Some [(p, pn)]
              } else Some []
            }) [(1, 0), (0, 1)]))) = Some es"
    by (auto simp: cell_edges_def Let_def bind_eq_Some_conv)
  from matrix_entry[OF kp wf] have kpr: "0 \<le> kp" "kp < int (nks m)" by simp_all
  show ?thesis
  proof (cases "need \<and> kp \<notin> set deg")
    case True
    with rest show ?thesis by simp
  next
    case False
    let ?f = "\<lambda>(di, dj).
            let ikn = ik + di; jkn = jk + dj in
            if ikn \<ge> shape0 ?M \<or> jkn \<ge> shape1 ?M then Some []
            else do {
              kneig \<leftarrow> np_get2 ?M ikn jkn;
              idn \<leftarrow> np_get2 ident ikn jkn;
              if \<not> idn then do {
                p \<leftarrow> edge_node m kp bn;
                pn \<leftarrow> edge_node m kneig bn;
                Some [(p, pn)]
              } else Some []
            }"
    from False rest obtain ess where ess: "those (map ?f [(1, 0), (0, 1)]) = Some ess"
      and es: "es = concat ess" by auto
    have one: "list_all ?ok ys" if "?f d = Some ys" for d ys
    proof -
      obtain di dj where d: "d = (di, dj)" by (cases d) auto
      show ?thesis
      proof (cases "ik + di \<ge> shape0 ?M \<or> jk + dj \<ge> shape1 ?M")
        case True
        with that d show ?thesis by (simp add: Let_def)
      next
        case False
        with that d obtain kneig idn where kn: "np_get2 ?M (ik + di) (jk + dj) = Some kneig"
          and r: "(if \<not> idn then do {
                p \<leftarrow> edge_node m kp bn;
                pn \<leftarrow> edge_node m kneig bn;
                Some [(p, pn)]
              } else Some []) = Some ys"
          by (auto simp: Let_def bind_eq_Some_conv)
        from matrix_entry[OF kn wf] have knr: "0 \<le> kneig" "kneig < int (nks m)" by simp_all
        show ?thesis
        proof (cases idn)
          case True
          with r show ?thesis by simp
        next
          case False
          with r obtain p pn where p: "edge_node m kp bn = Some p"
            and pn: "edge_node m kneig bn = Some pn" and ys: "ys = [(p, pn)]"
            by (auto simp: bind_eq_Some_conv)
          from edge_node_ok[OF p wf cov kpr] edge_node_ok[OF pn wf cov knr] ys
          show ?thesis by simp
        qed
      qed
    qed
    have "list_all (\<lambda>x. \<forall>y. x = Some y \<longrightarrow> list_all ?ok y) (map ?f [(1, 0), (0, 1)])"
    proof (rule list_all_optI)
      fix x y
      assume x: "x \<in> set (map ?f [(1, 0), (0, 1)])" and y: "x = Some y"
      from x obtain d where "x = ?f d" unfolding set_map by (rule imageE)
      with y have "?f d = Some y" by simp
      from one[OF this] show "list_all ?ok y" .
    qed
    from those_list_all[OF ess this] have "list_all (list_all ?ok) ess" .
    then show ?thesis unfolding es by (auto simp: list_all_iff)
  qed
qed

lemma band_edges_ok:
  assumes be: "band_edges m deg bn ident = Some es"
    and wf: "well_formed m"
    and cov: "coverage (bands_final m) (min_band m) (max_band m)"
  shows "list_all (\<lambda>(p, pn). (0 \<le> p \<or> node_value m p = - 1) \<and> (0 \<le> pn \<or> node_value m pn = - 1)) es"
proof -
  let ?ok = "\<lambda>(p, pn). (0 \<le> p \<or> node_value m p = - 1) \<and> (0 \<le> pn \<or> node_value m pn = - 1)"
  let ?cells = "concat (map (\<lambda>(ik, row).
       map (\<lambda>(jk, need). cell_edges m deg bn ident ik jk) (enumerate_int row))
       (enumerate_int ident))"
  from be obtain ess where ess: "those ?cells = Some ess" and es: "es = concat ess"
    by (auto simp: band_edges_def)
  have mem: "\<exists>ik jk. x = cell_edges m deg bn ident ik jk" if "x \<in> set ?cells" for x
    using that by auto
  have "list_all (\<lambda>x. \<forall>y. x = Some y \<longrightarrow> list_all ?ok y) ?cells"
  proof (rule list_all_optI)
    fix x y
    assume x: "x \<in> set ?cells" and y: "x = Some y"
    from mem[OF x] y obtain ik jk where "cell_edges m deg bn ident ik jk = Some y" by auto
    from cell_edges_ok[OF this wf cov] show "list_all ?ok y" .
  qed
  from those_list_all[OF ess this] have "list_all (list_all ?ok) ess" .
  then show ?thesis unfolding es by (auto simp: list_all_iff)
qed

lemma add_edges_from_nodes:
  "set (g_nodes (add_edges_from G es)) = set (g_nodes G) \<union> fst ` set es \<union> snd ` set es"
  by (auto simp: add_edges_from_def image_iff) force+

lemma signal_bands_graph:
  assumes "signal_bands m deg k_ot G C Cp bands = Some (G', C', Cp')"
    and "well_formed m" and "coverage (bands_final m) (min_band m) (max_band m)"
    and "list_all (\<lambda>n. 0 \<le> n \<or> node_value m n = - 1) (g_nodes G)"
  shows "list_all (\<lambda>n. 0 \<le> n \<or> node_value m n = - 1) (g_nodes G')"
  using assms
proof (induction bands arbitrary: G C Cp)
  case Nil
  then show ?case by simp
next
  case (Cons b bands)
  obtain bn band where b: "b = (bn, band)" by (cases b) auto
  from Cons.prems(1) b obtain edges C1 where
    e: "band_edges m deg bn (identify_points m band) = Some edges"
    and r: "signal_bands m deg k_ot (add_edges_from G edges) C1 C bands = Some (G', C', Cp')"
    by (auto simp: bind_eq_Some_conv)
  from band_edges_ok[OF e Cons.prems(2,3)] Cons.prems(4)
  have "list_all (\<lambda>n. 0 \<le> n \<or> node_value m n = - 1) (g_nodes (add_edges_from G edges))"
    unfolding list_all_iff add_edges_from_nodes by fastforce
  from Cons.IH[OF r Cons.prems(2,3) this] show ?case .
qed

lemma correct_signal_frame:
  assumes "correct_signal fit m = Some m'"
  shows "\<exists>m1 deg k_ot C0 bands G C Cp.
           obtain_output m = Some m1
         \<and> signal_bands m1 deg k_ot \<lparr>g_nodes = map int [0..<n_vectors m1], g_edges = []\<rparr>
             C0 (correct_signalfinal_prev m1) bands = Some (G, C, Cp)
         \<and> m' = m1\<lparr>GRAPH := G, correct_signalfinal := C, correct_signalfinal_prev := Cp\<rparr>"
  using assms
  apply (auto simp: correct_signal_def Let_def bind_eq_Some_conv split: prod.splits)
  apply (intro exI conjI)
   apply assumption
  apply (rule refl)
  done

subsection \<open>The graph that solve starts from\<close>

lemma broadcast_nonneg:
  assumes bc: "np_broadcast2 (\<lambda>n b. n + b * nk) neighs bands = Some ks0"
    and len: "length ks0 = length neighs"
    and p: "p < length ks0" and np: "0 \<le> neighs ! p"
    and b: "list_all (\<lambda>b. 0 \<le> b) bands" and nk: "(0::int) \<le> nk"
  shows "0 \<le> ks0 ! p"
proof -
  have bp: "0 \<le> x * nk" if "x \<in> set bands" for x
    using that b nk by (simp add: list_all_iff)
  consider (eq) "length neighs = length bands"
      "ks0 = map (\<lambda>(x, y). x + y * nk) (zip neighs bands)"
    | (one) "length neighs = 1" "ks0 = map (\<lambda>y. hd neighs + y * nk) bands"
    | (other) "length bands = 1" "ks0 = map (\<lambda>x. x + hd bands * nk) neighs"
    using bc by (auto simp: np_broadcast2_def split: if_splits)
  then show ?thesis
  proof cases
    case eq
    have "bands ! p \<in> set bands" using p len eq(1) by simp
    from bp[OF this] show ?thesis using eq p len np by simp
  next
    case one
    from one(1) len p have p0: "p = 0" by simp
    from one(1) have hd: "hd neighs = neighs ! 0" by (cases neighs) simp_all
    have "bands ! p \<in> set bands" using p one(2) by simp
    from bp[OF this] show ?thesis using one p np p0 hd by simp
  next
    case other
    from other(1) have "hd bands \<in> set bands" by (cases bands) simp_all
    from bp[OF this] show ?thesis using other p len np by simp
  qed
qed

lemma node_edges_nonneg:
  assumes run: "node_edges m tol bands i = Some es"
    and i: "0 \<le> i"
    and nb: "list_all (list_all (\<lambda>x. - 1 \<le> x)) (neighbors m)"
    and b: "list_all (\<lambda>b. 0 \<le> b) bands"
  shows "list_all (\<lambda>(u, v). 0 \<le> u \<and> 0 \<le> v) es"
proof -
  let ?nk = "int (nks m)"
  from run obtain row ks0 ks found where
    row: "np_get (neighbors m) (i mod ?nk) = Some row"
    and bc: "np_broadcast2 (\<lambda>n b. n + b * ?nk) (concat (replicate (nbnd m) row)) bands = Some ks0"
    and msk: "np_mask ks0 (map (\<lambda>n. n \<noteq> - 1) (concat (replicate (nbnd m) row))) = Some ks"
    and es: "es = map (\<lambda>(j', c). (i, j')) (filter snd (zip ks found))"
    by (auto simp: node_edges_def Let_def split: Option.bind_splits)
  let ?neighs = "concat (replicate (nbnd m) row)"
  from np_get_list_all[OF row nb] have r: "list_all (\<lambda>x. - 1 \<le> x) row" .
  then have n1: "list_all (\<lambda>x. - 1 \<le> x) ?neighs" by (auto simp: list_all_iff)
  from msk have len: "length ks0 = length ?neighs"
    by (auto simp: np_mask_def split: if_splits)
  have "0 \<le> j" if "j \<in> set ks" for j
  proof -
    from that np_mask_set[OF msk] obtain p where p: "p < length ks0"
      and sel: "map (\<lambda>n. n \<noteq> - 1) ?neighs ! p" and j: "j = ks0 ! p" by auto
    from p len sel have ne: "?neighs ! p \<noteq> - 1" by simp
    from n1 p len have "- 1 \<le> ?neighs ! p" by (simp add: list_all_length)
    with ne have "0 \<le> ?neighs ! p" by simp
    from broadcast_nonneg[OF bc len p this b] show ?thesis unfolding j by simp
  qed
  then show ?thesis unfolding es list_all_iff using i by (auto dest: set_zip_leftD)
qed

text \<open>
  \<^verbatim>\<open>make_connections\<close> adds no negative node to the nodes \<open>0 .. n_vectors - 1\<close> of
  \<^verbatim>\<open>make_vectors\<close> when the neighbour table holds k-points and \<open>-1\<close> and the window starts
  at a band \<open>min_band \<ge> 0\<close>.
\<close>

lemma make_connections_nodes:
  assumes run: "make_connections_edges m tol = Some m'"
    and g: "list_all (\<lambda>n. 0 \<le> n) (g_nodes (GRAPH m))"
    and nb: "list_all (list_all (\<lambda>x. - 1 \<le> x)) (neighbors m)"
    and mb: "0 \<le> min_band m"
  shows "list_all (\<lambda>n. 0 \<le> n) (g_nodes (GRAPH m'))"
proof -
  from run obtain first ess where
    first: "np_get (neighbors m) 0 = Some first"
    and ess: "those (map (node_edges m tol
                (concat (map (replicate (length first)) [min_band m..max_band m])))
                (map int [0..<n_vectors m])) = Some ess"
    and m': "m' = m\<lparr>GRAPH := add_edges_from (GRAPH m) (concat ess)\<rparr>"
    by (auto simp: make_connections_edges_def connection_component_def Let_def
        split: Option.bind_splits)
  let ?bands = "concat (map (replicate (length first)) [min_band m..max_band m])"
  have b: "list_all (\<lambda>b. 0 \<le> b) ?bands" using mb by (auto simp: list_all_iff)
  have "list_all (\<lambda>x. \<forall>y. x = Some y \<longrightarrow> list_all (\<lambda>(u, v). 0 \<le> u \<and> 0 \<le> v) y)
          (map (node_edges m tol ?bands) (map int [0..<n_vectors m]))"
  proof (rule list_all_optI)
    fix x y
    assume "x \<in> set (map (node_edges m tol ?bands) (map int [0..<n_vectors m]))" "x = Some y"
    then obtain n where "node_edges m tol ?bands (int n) = Some y" by auto
    then obtain i where "0 \<le> i" "node_edges m tol ?bands i = Some y"
      using of_nat_0_le_iff by blast
    from node_edges_nonneg[OF this(2,1) nb b]
    show "list_all (\<lambda>(u, v). 0 \<le> u \<and> 0 \<le> v) y" .
  qed
  from those_list_all[OF ess this]
  have "list_all (\<lambda>(u, v). 0 \<le> u \<and> 0 \<le> v) (concat ess)" by (auto simp: list_all_iff)
  with g show ?thesis unfolding m' list_all_iff
    by (simp add: add_edges_from_nodes) fastforce
qed

subsection \<open>The components of a graph\<close>

lemma components_from_nodes:
  "list_all (\<lambda>c. set c \<subseteq> set (g_nodes G)) (components_from G seen vs)"
  by (induction vs arbitrary: seen) (auto simp: Let_def)

lemma connected_components_contract: "cc_contract connected_components"
  by (simp add: cc_contract_def connected_components_def components_from_nodes)

subsection \<open>The invariant of the run\<close>

lemma well_formed_cong:
  "nkx m = nkx m0 \<Longrightarrow> nky m = nky m0 \<Longrightarrow> nks m = nks m0 \<Longrightarrow> nbnd m = nbnd m0
     \<Longrightarrow> min_band m = min_band m0 \<Longrightarrow> max_band m = max_band m0
     \<Longrightarrow> well_formed m = well_formed m0"
  by (simp add: well_formed_def)

lemma node_value_cong:
  "nkx m = nkx m0 \<Longrightarrow> nky m = nky m0 \<Longrightarrow> min_band m = min_band m0
     \<Longrightarrow> node_value m = node_value m0"
  by (rule ext) (simp add: node_value_def c_nks_def)

lemma covered_cong:
  "min_band m = min_band m0 \<Longrightarrow> max_band m = max_band m0 \<Longrightarrow> covered m = covered m0"
  by (rule ext) (simp add: covered_def)

lemma graph_ok_cong:
  "nkx m = nkx m0 \<Longrightarrow> nky m = nky m0 \<Longrightarrow> min_band m = min_band m0 \<Longrightarrow> GRAPH m = GRAPH m0
     \<Longrightarrow> graph_ok m = graph_ok m0"
  by (simp add: graph_ok_def node_value_cong[of m m0])

lemma components_ok_cong:
  "nkx m = nkx m0 \<Longrightarrow> nky m = nky m0 \<Longrightarrow> min_band m = min_band m0 \<Longrightarrow> max_band m = max_band m0
     \<Longrightarrow> solved m = solved m0 \<Longrightarrow> clusters m = clusters m0
     \<Longrightarrow> components_ok m = components_ok m0"
  by (simp add: components_ok_def node_value_cong[of m m0] covered_cong[of m m0])

lemma inv_init:
  assumes "start_state m0"
  shows "solve_inv m0 (solve_init m0)"
proof -
  from assms have b: "bands_final m0 = replicate (nks m0) (replicate (total_bands m0) (- 1))"
    and g: "list_all (\<lambda>n. 0 \<le> n) (g_nodes (GRAPH m0))"
    and c: "solved m0 = []" "clusters m0 = []"
    by (simp_all add: start_state_def)
  have cov: "coverage (bands_final m0) (min_band m0) (max_band m0)"
    unfolding b by (simp add: coverage_def list_all_iff)
  have go: "graph_ok (solve_init m0)"
    using g by (simp add: graph_ok_def solve_init_def list_all_iff)
  have co: "components_ok (solve_init m0)"
    using c by (simp add: components_ok_def solve_init_def)
  show ?thesis using cov go co by (simp add: solve_inv_def solve_init_def)
qed

lemma inv_components:
  assumes inv: "solve_inv m0 m" and wf: "well_formed m0" and cc: "cc_contract cc"
    and run: "get_components_run fit cc tol m = Some m'"
  shows "solve_inv m0 m'"
proof -
  from inv have par: "nkx m = nkx m0" "nky m = nky m0" "nks m = nks m0" "nbnd m = nbnd m0"
    "min_band m = min_band m0" "max_band m = max_band m0"
    and g: "graph_ok m" by (simp_all add: solve_inv_def)
  have wfm: "well_formed m" using wf well_formed_cong[OF par] by simp
  from get_components_run_ok[OF run cc wfm g] obtain cs ks where
    m': "m' = m\<lparr>solved := cs, clusters := ks\<rparr>" and co: "components_ok m'" by blast
  have "graph_ok m' = graph_ok m" by (rule graph_ok_cong) (simp_all add: m')
  with g co inv show ?thesis unfolding m' by (simp add: solve_inv_def)
qed

lemma inv_output:
  assumes inv: "solve_inv m0 m" and run: "obtain_output m = Some m'"
  shows "solve_inv m0 m'"
proof -
  from inv have par: "min_band m = min_band m0" "max_band m = max_band m0"
    and cov: "coverage (bands_final m) (min_band m0) (max_band m0)"
    and g: "graph_ok m" and co: "components_ok m" by (simp_all add: solve_inv_def)
  have comps: "list_all (\<lambda>c. list_all (\<lambda>n. node_value m n = - 1
                 \<or> (min_band m0 \<le> node_value m n \<and> node_value m n \<le> max_band m0)) (nodes c))
                 (solved m @ clusters m)"
    using co par by (simp add: components_ok_def covered_def)
  from obtain_output_coverage[OF run comps cov] obtain B S F D where
    cov': "coverage (bands_final m') (min_band m0) (max_band m0)"
    and m': "m' = m\<lparr>bands_final := B, signal_final := S, final_score := F,
                      degenerate_final := D\<rparr>" by blast
  have "graph_ok m' = graph_ok m" by (rule graph_ok_cong) (simp_all add: m')
  moreover have "components_ok m' = components_ok m"
    by (rule components_ok_cong) (simp_all add: m')
  ultimately show ?thesis using inv cov' g co unfolding m' by (simp add: solve_inv_def)
qed

lemma inv_signal:
  assumes inv: "solve_inv m0 m" and wf: "well_formed m0"
    and run: "correct_signal fit m = Some m'"
  shows "solve_inv m0 m'"
proof -
  from correct_signal_frame[OF run] obtain m1 deg k_ot C0 bands G C Cp where
    o: "obtain_output m = Some m1"
    and sb: "signal_bands m1 deg k_ot \<lparr>g_nodes = map int [0..<n_vectors m1], g_edges = []\<rparr>
               C0 (correct_signalfinal_prev m1) bands = Some (G, C, Cp)"
    and m': "m' = m1\<lparr>GRAPH := G, correct_signalfinal := C, correct_signalfinal_prev := Cp\<rparr>"
    by blast
  have inv1: "solve_inv m0 m1" by (rule inv_output[OF inv o])
  then have par: "nkx m1 = nkx m0" "nky m1 = nky m0" "nks m1 = nks m0" "nbnd m1 = nbnd m0"
    "min_band m1 = min_band m0" "max_band m1 = max_band m0"
    and cov: "coverage (bands_final m1) (min_band m0) (max_band m0)"
    and co: "components_ok m1" by (simp_all add: solve_inv_def)
  have wf1: "well_formed m1" using wf well_formed_cong[OF par] by simp
  have cov1: "coverage (bands_final m1) (min_band m1) (max_band m1)" using cov par by simp
  have g0: "list_all (\<lambda>n. 0 \<le> n \<or> node_value m1 n = - 1)
              (g_nodes \<lparr>g_nodes = map int [0..<n_vectors m1], g_edges = []\<rparr>)"
    by (simp add: list_all_iff)
  from signal_bands_graph[OF sb wf1 cov1 g0]
  have "list_all (\<lambda>n. 0 \<le> n \<or> node_value m1 n = - 1) (g_nodes G)" .
  moreover have "node_value m' = node_value m1" by (rule node_value_cong) (simp_all add: m')
  ultimately have g: "graph_ok m'" by (simp add: graph_ok_def m')
  have "components_ok m' = components_ok m1"
    by (rule components_ok_cong) (simp_all add: m')
  with inv1 g co show ?thesis unfolding m' by (simp add: solve_inv_def)
qed

lemma inv_store:
  assumes inv: "solve_inv m0 m" and inv3: "solve_inv m0 m3"
  shows "solve_inv m0 (store_out m (out_of m3))"
proof -
  let ?m = "store_out m (out_of m3)"
  from inv inv3 have par: "nkx ?m = nkx m3" "nky ?m = nky m3" "min_band ?m = min_band m3"
    "max_band ?m = max_band m3"
    by (simp_all add: solve_inv_def store_out_def out_of_def)
  have "graph_ok ?m = graph_ok m3"
    by (rule graph_ok_cong[OF par(1,2,3)]) (simp add: store_out_def out_of_def)
  moreover have "components_ok ?m = components_ok m3"
    by (rule components_ok_cong[OF par]) (simp_all add: store_out_def out_of_def)
  moreover have "bands_final ?m = bands_final m3" "best_bands_final ?m = best_bands_final m"
    "nkx ?m = nkx m" "nky ?m = nky m" "nks ?m = nks m" "nbnd ?m = nbnd m"
    "min_band ?m = min_band m" "max_band ?m = max_band m"
    by (simp_all add: store_out_def out_of_def)
  ultimately show ?thesis using inv inv3 by (simp add: solve_inv_def)
qed

lemma inv_stages:
  assumes inv: "solve_inv m0 m" and wf: "well_formed m0" and cc: "cc_contract cc"
    and run: "solve_stages fit cc tol m = Some out"
  shows "solve_inv m0 (store_out m out)"
proof -
  from run obtain m1 m2 m3 where a: "get_components_run fit cc tol m = Some m1"
    and b: "obtain_output m1 = Some m2" and c: "correct_signal fit m2 = Some m3"
    and out: "out = out_of m3"
    by (auto simp: solve_stages_def bind_eq_Some_conv)
  have "solve_inv m0 m3"
    by (rule inv_signal[OF inv_output[OF inv_components[OF inv wf cc a] b] wf c])
  from inv_store[OF inv this] show ?thesis unfolding out .
qed

lemma inv_stage_signal:
  assumes inv: "solve_inv m0 m" and wf: "well_formed m0"
    and run: "solve_correct_signal fit m = Some out"
  shows "solve_inv m0 (store_out m out)"
proof -
  from run obtain m3 where c: "correct_signal fit m = Some m3" and out: "out = out_of m3"
    by (auto simp: solve_correct_signal_def)
  from inv_store[OF inv inv_signal[OF inv wf c]] show ?thesis unfolding out .
qed

lemma reachable_inv:
  assumes r: "reachable fit cc m0 m" and st: "start_state m0" and cc: "cc_contract cc"
  shows "solve_inv m0 m"
  using r
proof (induction rule: reachable.induct)
  case r_init
  show ?case by (rule inv_init[OF st])
next
  case (r_components m tol m')
  from st have wf: "well_formed m0" by (simp add: start_state_def)
  show ?case by (rule inv_components[OF r_components.IH wf cc r_components.hyps(2)])
next
  case (r_output m m')
  show ?case by (rule inv_output[OF r_output.IH r_output.hyps(2)])
next
  case (r_signal m m')
  from st have wf: "well_formed m0" by (simp add: start_state_def)
  show ?case by (rule inv_signal[OF r_signal.IH wf r_signal.hyps(2)])
next
  case (r_stages m tol out)
  from st have wf: "well_formed m0" by (simp add: start_state_def)
  show ?case by (rule inv_stages[OF r_stages.IH wf cc r_stages.hyps(2)])
next
  case (r_stage_signal m out)
  from st have wf: "well_formed m0" by (simp add: start_state_def)
  show ?case by (rule inv_stage_signal[OF r_stage_signal.IH wf r_stage_signal.hyps(2)])
next
  case (r_previous m)
  have "graph_ok (m\<lparr>bands_final_prev := bands_final m\<rparr>) = graph_ok m"
    by (rule graph_ok_cong) simp_all
  moreover have "components_ok (m\<lparr>bands_final_prev := bands_final m\<rparr>) = components_ok m"
    by (rule components_ok_cong) simp_all
  ultimately show ?case using r_previous.IH by (simp add: solve_inv_def)
next
  case (r_best m)
  let ?m = "m\<lparr>best_bands_final := bands_final m, best_score := final_score m,
               best_signal_final := Some (signal_final m),
               degenerate_best := degenerate_final m\<rparr>"
  have "graph_ok ?m = graph_ok m" by (rule graph_ok_cong) simp_all
  moreover have "components_ok ?m = components_ok m" by (rule components_ok_cong) simp_all
  ultimately show ?case using r_best.IH by (simp add: solve_inv_def)
next
  case (r_restore m bsf)
  let ?m = "m\<lparr>bands_final := best_bands_final m, final_score := best_score m,
               signal_final := bsf, degenerate_final := degenerate_best m\<rparr>"
  have "graph_ok ?m = graph_ok m" by (rule graph_ok_cong) simp_all
  moreover have "components_ok ?m = components_ok m" by (rule components_ok_cong) simp_all
  ultimately show ?case using r_restore.IH by (simp add: solve_inv_def)
qed

subsection \<open>The states of solve are states of the run\<close>

lemma solve_body_reachable:
  assumes body: "solve_body (solve_stages fit cc) (solve_correct_signal fit) TOL m ms
                   = Some (m', f', ms')"
    and r: "reachable fit cc m0 m"
  shows "reachable fit cc m0 m'"
proof -
  from body obtain out where out: "solve_stages fit cc TOL m = Some out"
    by (auto simp: solve_body_def split: Option.bind_splits)
  define m1 where "m1 = store_out m out"
  define m2 where "m2 = m1\<lparr>bands_final_prev := bands_final m1\<rparr>"
  have r1: "reachable fit cc m0 m1" unfolding m1_def by (rule r_stages[OF r out])
  have r2: "reachable fit cc m0 m2" unfolding m2_def by (rule r_previous[OF r1])
  from body out obtain solved where solved: "count_solved m2 0 (final_score m2) = Some solved"
    by (auto simp: solve_body_def m1_def m2_def Let_def split: Option.bind_splits)
  show ?thesis
  proof (cases "solved \<ge> ms")
    case True
    with body out solved have "m' = m2\<lparr>best_bands_final := bands_final m2,
                  best_score := final_score m2,
                  best_signal_final := Some (signal_final m2),
                  degenerate_best := degenerate_final m2\<rparr>"
      by (auto simp: solve_body_def m1_def m2_def Let_def split: Option.bind_splits)
    then show ?thesis using r_best[OF r2] by simp
  next
    case False
    with body out solved obtain bsf out' where
      bsf: "best_signal_final m2 = Some bsf"
      and cs: "solve_correct_signal fit (m2\<lparr>bands_final := best_bands_final m2,
                      final_score := best_score m2,
                      signal_final := bsf,
                      degenerate_final := degenerate_best m2\<rparr>) = Some out'"
      and m': "m' = store_out (m2\<lparr>bands_final := best_bands_final m2,
                      final_score := best_score m2,
                      signal_final := bsf,
                      degenerate_final := degenerate_best m2\<rparr>) out'"
      by (auto simp: solve_body_def m1_def m2_def Let_def split: Option.bind_splits)
    from r_stage_signal[OF r_restore[OF r2 bsf] cs] show ?thesis unfolding m' .
  qed
qed

lemma solve_loop_reachable_aux:
  assumes run: "solve_loop stages cs step min_tol st = Some y"
  shows "stages = solve_stages fit cc \<and> cs = solve_correct_signal fit \<longrightarrow>
      (\<forall>m TOL flag ms hist hist' m'.
         st = (m, TOL, flag, ms, hist) \<and> y = (hist', Some m') \<and> reachable fit cc m0 m
         \<longrightarrow> reachable fit cc m0 m')"
proof -
  let ?P = "\<lambda>stages cs (step :: real) (min_tol :: real) st y.
      stages = solve_stages fit cc \<and> cs = solve_correct_signal fit \<longrightarrow>
      (\<forall>m TOL flag ms hist hist' m'.
         st = (m, TOL, flag, ms, hist) \<and> y = (hist', Some m') \<and> reachable fit cc m0 m
         \<longrightarrow> reachable fit cc m0 m')"
  show ?thesis
  proof (rule solve_loop.raw_induct[where P = ?P, OF _ run])
    fix loop stages cs step min_tol st y
    assume IH: "\<And>stages cs step min_tol st y.
                  loop stages cs step min_tol st = Some y \<Longrightarrow> ?P stages cs step min_tol st y"
      and unf: "(case st of
           (m, TOL, bands_final_flag, max_solved, hist) \<Rightarrow>
             if bands_final_flag \<and> min_tol \<le> TOL
             then case solve_body stages cs TOL m max_solved of
                  None \<Rightarrow> Some (hist, None)
                  | Some (m', flag', max_solved') \<Rightarrow>
                      loop stages cs step min_tol
                       (m', f64_sub TOL step, flag', max_solved',
                        hist @ [(TOL, flag', best_score m')])
             else Some (hist, Some m)) = Some y"
    show "?P stages cs step min_tol st y"
    proof (intro impI allI, elim conjE)
      fix m TOL flag ms hist hist' m'
      assume s: "stages = solve_stages fit cc" and c: "cs = solve_correct_signal fit"
        and st: "st = (m, TOL, flag, ms, hist)" and y: "y = (hist', Some m')"
        and r: "reachable fit cc m0 m"
      show "reachable fit cc m0 m'"
      proof (cases "flag \<and> min_tol \<le> TOL")
        case False
        with unf st y have "m' = m" by auto
        then show ?thesis using r by simp
      next
        case True
        show ?thesis
        proof (cases "solve_body stages cs TOL m ms")
          case None
          with True unf st y show ?thesis by auto
        next
          case (Some res)
          obtain m1 f' ms' where res: "res = (m1, f', ms')" by (cases res) auto
          let ?h = "hist @ [(TOL, f', best_score m1)]"
          from True Some res unf st y
          have rec: "loop stages cs step min_tol (m1, f64_sub TOL step, f', ms', ?h)
                       = Some (hist', Some m')"
            by simp
          have r1: "reachable fit cc m0 m1"
            by (rule solve_body_reachable[OF Some[unfolded res s c] r])
          from IH[OF rec] s c r1 show ?thesis by blast
        qed
      qed
    qed
  qed
qed

lemma solve_reachable:
  assumes "solve (solve_stages fit cc) (solve_correct_signal fit) step min_tol m0
             = Some (hist, Some m')"
  shows "reachable fit cc m0 m'"
proof -
  from assms obtain r where
    run: "solve_loop (solve_stages fit cc) (solve_correct_signal fit) step min_tol
            (solve_init m0, 0.5, True, 0, []) = Some (hist, r)"
    and fin: "Option.bind r solve_finish = Some m'"
    by (auto simp: solve_def)
  from fin obtain mf where r: "r = Some mf" and f: "solve_finish mf = Some m'"
    by (cases r) auto
  from solve_loop_reachable_aux[OF run[unfolded r], of fit cc m0] r_init[of fit cc m0]
  have rf: "reachable fit cc m0 mf" by blast
  from f obtain bsf where bsf: "best_signal_final mf = Some bsf"
    and m': "m' = mf\<lparr>bands_final := best_bands_final mf, final_score := best_score mf,
                      signal_final := bsf, degenerate_final := degenerate_best mf\<rparr>"
    by (auto simp: solve_finish_def bind_eq_Some_conv)
  from r_restore[OF rf bsf] show ?thesis unfolding m' .
qed

subsection \<open>Coverage of bands_final\<close>

lemma run_start_graph:
  "map_option GRAPH (make_connections_edges run_fresh (1 / 2)) = Some (GRAPH run_start)"
  by code_simp

lemma run_start_solve:
  "\<exists>y. solve (solve_stages no_fit connected_components) (solve_correct_signal no_fit)
          step_default 0 run_start = Some y
      \<and> (length (fst y), map_option bands_final (snd y))
          = (2, Some [[0], [0], [0], [0], [0], [0]])"
proof (rule solve_fuel_sound[where n = 4])
  show "map_option (\<lambda>y. (length (fst y), map_option bands_final (snd y)))
          (solve_fuel 4 (solve_stages no_fit connected_components) (solve_correct_signal no_fit)
             step_default 0 run_start)
        = Some (2, Some [[0], [0], [0], [0], [0], [0]])"
    by code_simp
qed

text \<open>
  C6. Before \<^verbatim>\<open>solve\<close>, \<^verbatim>\<open>bands_final\<close> is the array of \<open>-1\<close> of line 409. In every state of
  the run of \<^verbatim>\<open>solve\<close>, and in the array that \<^verbatim>\<open>solve\<close> leaves, every entry of
  \<^verbatim>\<open>bands_final\<close> is \<open>-1\<close> or a band in \<open>[min_band, max_band]\<close>. \<^verbatim>\<open>obtain_output\<close> writes the
  bands \<open>n div nks + min_band\<close> of the nodes \<open>n\<close> of the components. These are nodes of the
  graph, below \<open>nks * nbnd\<close> because \<^verbatim>\<open>get_components\<close> indexes \<^verbatim>\<open>labels\<close> with them, and
  the negative ones are those that \<^verbatim>\<open>correct_signal\<close> creates for entries \<open>-1\<close> of
  \<^verbatim>\<open>bands_final\<close> (lines 964-965), whose band is again \<open>-1\<close>.
\<close>

theorem bands_final_coverage:
  assumes "start_state m0" and "cc_contract cc"
  shows "coverage (bands_final m0) (min_band m0) (max_band m0)
       \<and> (\<forall>m. reachable fit cc m0 m \<longrightarrow> coverage (bands_final m) (min_band m0) (max_band m0))
       \<and> (\<forall>step min_tol hist m'.
            solve (solve_stages fit cc) (solve_correct_signal fit) step min_tol m0
              = Some (hist, Some m')
            \<longrightarrow> coverage (bands_final m') (min_band m0) (max_band m0))"
proof (intro conjI allI impI)
  from assms(1) have "bands_final m0 = replicate (nks m0) (replicate (total_bands m0) (- 1))"
    by (simp add: start_state_def)
  then show "coverage (bands_final m0) (min_band m0) (max_band m0)"
    by (simp add: coverage_def list_all_iff)
next
  fix m assume "reachable fit cc m0 m"
  from reachable_inv[OF this assms] show "coverage (bands_final m) (min_band m0) (max_band m0)"
    by (simp add: solve_inv_def)
next
  fix step min_tol hist m'
  assume "solve (solve_stages fit cc) (solve_correct_signal fit) step min_tol m0
            = Some (hist, Some m')"
  from reachable_inv[OF solve_reachable[OF this] assms]
  show "coverage (bands_final m') (min_band m0) (max_band m0)"
    by (simp add: solve_inv_def)
qed

theorem bands_final_coverage_witness:
  "start_state run_start \<and> cc_contract connected_components
   \<and> (\<exists>hist m'. solve (solve_stages no_fit connected_components) (solve_correct_signal no_fit)
                    step_default 0 run_start = Some (hist, Some m')
        \<and> bands_final m' = [[0], [0], [0], [0], [0], [0]]
        \<and> coverage (bands_final m') (min_band run_start) (max_band run_start))"
proof -
  have st: "start_state run_start" by code_simp
  have cc: "cc_contract connected_components" by (rule connected_components_contract)
  from run_start_solve obtain y where
    yb: "solve (solve_stages no_fit connected_components) (solve_correct_signal no_fit)
          step_default 0 run_start = Some y
      \<and> (length (fst y), map_option bands_final (snd y))
          = (2, Some [[0], [0], [0], [0], [0], [0]])" ..
  obtain hist r where y: "y = (hist, r)" by (cases y) auto
  from yb y obtain m' where r: "r = Some m'"
    and b: "bands_final m' = [[0], [0], [0], [0], [0], [0]]" by (cases r) auto
  have run: "solve (solve_stages no_fit connected_components) (solve_correct_signal no_fit)
          step_default 0 run_start = Some (hist, Some m')"
    using yb y r by simp
  from bands_final_coverage[OF st cc, of no_fit] run
  have "coverage (bands_final m') (min_band run_start) (max_band run_start)" by blast
  with st cc run b show ?thesis by blast
qed

end
